theory Spec2Isabelle
  imports Complex_Main "HOL-Library.AList" "HOL-Library.Multiset"
begin

section \<open>JavaScript numbers\<close>

text \<open>
  A JavaScript \<^verbatim>\<open>number\<close> is an IEEE-754 double. The model keeps the three kinds of
  special value apart from the finite ones, because the monitor's comparisons and
  \<^verbatim>\<open>Number.isFinite\<close> tell them apart. A finite value is carried as the real
  number it stands for. Comparisons are those of the reals; the result of an addition, a
  subtraction or a multiplication of finite values is the exact result rounded to the
  nearest double, ties to even, and an infinity when that overflows. The sign of zero is
  not modelled.
\<close>

datatype jsnum = NaN | NegInf | Fin real | PosInf

text \<open>
  Rounding to binary64. A double has 53 significant bits; the exponent of a normal
  double lies between \<open>-1022\<close> and \<open>1023\<close>, and below \<open>2^-1022\<close> the doubles are
  spaced by \<open>2^-1074\<close>.
\<close>

definition pow2 :: "int \<Rightarrow> real" where
  "pow2 k = (if 0 \<le> k then 2 ^ nat k else 1 / 2 ^ nat (- k))"

definition binary_exponent :: "real \<Rightarrow> int" where
  "binary_exponent x = max \<lfloor>log 2 \<bar>x\<bar>\<rfloor> (- 1022)"

definition round_half_even :: "real \<Rightarrow> int" where
  "round_half_even y =
     (let f = \<lfloor>y\<rfloor>; d = y - of_int f
      in if d < 1 / 2 then f
         else if 1 / 2 < d then f + 1
         else if even f then f else f + 1)"

definition to_double :: "real \<Rightarrow> jsnum" where
  "to_double x =
     (if x = 0 then Fin 0
      else (let ulp = pow2 (binary_exponent x - 52);
                r = of_int (round_half_even (x / ulp)) * ulp
            in if 2 ^ 1024 \<le> r then PosInf
               else if r \<le> - (2 ^ 1024) then NegInf
               else Fin r))"

text \<open>\<^verbatim>\<open>a >= b\<close>: false as soon as one operand is NaN.\<close>

fun jge :: "jsnum \<Rightarrow> jsnum \<Rightarrow> bool" where
  "jge NaN _ = False"
| "jge _ NaN = False"
| "jge PosInf _ = True"
| "jge _ NegInf = True"
| "jge (Fin a) (Fin b) = (b \<le> a)"
| "jge (Fin _) PosInf = False"
| "jge NegInf _ = False"

text \<open>\<^verbatim>\<open>a <= b\<close>\<close>

definition jle :: "jsnum \<Rightarrow> jsnum \<Rightarrow> bool" where
  "jle a b = jge b a"

text \<open>\<^verbatim>\<open>Number.isFinite\<close> on a number.\<close>

fun isFinite :: "jsnum \<Rightarrow> bool" where
  "isFinite (Fin _) = True"
| "isFinite _ = False"

text \<open>\<^verbatim>\<open>Math.max(a, b)\<close>: NaN if either argument is NaN.\<close>

fun Math_max :: "jsnum \<Rightarrow> jsnum \<Rightarrow> jsnum" where
  "Math_max NaN _ = NaN"
| "Math_max _ NaN = NaN"
| "Math_max PosInf _ = PosInf"
| "Math_max _ PosInf = PosInf"
| "Math_max NegInf b = b"
| "Math_max a NegInf = a"
| "Math_max (Fin a) (Fin b) = Fin (max a b)"

text \<open>\<^verbatim>\<open>-a\<close>, \<^verbatim>\<open>a + b\<close>, \<^verbatim>\<open>a - b\<close> and \<^verbatim>\<open>a * b\<close>.\<close>

fun jneg :: "jsnum \<Rightarrow> jsnum" where
  "jneg NaN = NaN"
| "jneg NegInf = PosInf"
| "jneg PosInf = NegInf"
| "jneg (Fin a) = Fin (- a)"

fun jadd :: "jsnum \<Rightarrow> jsnum \<Rightarrow> jsnum" where
  "jadd NaN _ = NaN"
| "jadd _ NaN = NaN"
| "jadd (Fin a) (Fin b) = to_double (a + b)"
| "jadd PosInf NegInf = NaN"
| "jadd NegInf PosInf = NaN"
| "jadd PosInf _ = PosInf"
| "jadd _ PosInf = PosInf"
| "jadd NegInf _ = NegInf"
| "jadd _ NegInf = NegInf"

definition jsub :: "jsnum \<Rightarrow> jsnum \<Rightarrow> jsnum" where
  "jsub a b = jadd a (jneg b)"

text \<open>The sign of an infinite product; zero times an infinity is NaN.\<close>

definition inf_times :: "bool \<Rightarrow> real \<Rightarrow> jsnum" where
  "inf_times positive a =
     (if a = 0 then NaN
      else if (0 < a) = positive then PosInf else NegInf)"

fun jmul :: "jsnum \<Rightarrow> jsnum \<Rightarrow> jsnum" where
  "jmul NaN _ = NaN"
| "jmul _ NaN = NaN"
| "jmul (Fin a) (Fin b) = to_double (a * b)"
| "jmul PosInf (Fin b) = inf_times True b"
| "jmul NegInf (Fin b) = inf_times False b"
| "jmul (Fin a) PosInf = inf_times True a"
| "jmul (Fin a) NegInf = inf_times False a"
| "jmul PosInf PosInf = PosInf"
| "jmul NegInf NegInf = PosInf"
| "jmul PosInf NegInf = NegInf"
| "jmul NegInf PosInf = NegInf"

section \<open>Strings\<close>

text \<open>
  Pool addresses are hexadecimal strings. \<^verbatim>\<open>String.prototype.toLowerCase\<close> is
  modelled on ASCII: the letters A to Z are mapped to a to z and every other character
  is left as it is.
\<close>

definition char_toLowerCase :: "char \<Rightarrow> char" where
  "char_toLowerCase c =
     (case map_of (zip ''ABCDEFGHIJKLMNOPQRSTUVWXYZ'' ''abcdefghijklmnopqrstuvwxyz'') c of
        Some l \<Rightarrow> l
      | None \<Rightarrow> c)"

definition toLowerCase :: "string \<Rightarrow> string" where
  "toLowerCase s = map char_toLowerCase s"

section \<open>Data model\<close>

text \<open>
  The interfaces of \<^verbatim>\<open>pools.types.ts\<close> and of the service. Two records share the
  field names \<open>address\<close> and \<open>volume\<close>; they are written with the record's name
  in front (\<open>Pool.volume\<close>, \<open>NotifyState.volume\<close>).
\<close>

record PoolToken =
  address :: string
  symbol :: string
  logoURI :: string

record PoolChain =
  chain_id :: jsnum
  chain_name :: string
  logoUrl :: string

record Pool =
  address :: string
  earnFee :: jsnum
  egUsd :: jsnum
  exchange :: string
  feeTier :: jsnum
  volume :: jsnum
  liquidity :: jsnum
  tvl :: jsnum
  apr :: jsnum
  allApr :: jsnum
  lpApr :: jsnum
  kemApr :: jsnum
  tokens :: "PoolToken list"
  chain :: PoolChain

record PoolsApiResponse =
  code :: jsnum
  message :: string
  data_pools :: "Pool list option"

text \<open>
  \<^verbatim>\<open>readNumber\<close> (lines 330 to 337). Its first argument is what
  \<^verbatim>\<open>Number(raw)\<close> gives for a variable that is set and not empty, and \<open>None\<close> for a
  variable that is unset or empty. Whatever the environment holds, the result is a finite
  number, so the numeric fields of the configuration are reals.
\<close>

fun readNumber :: "jsnum option \<Rightarrow> real \<Rightarrow> real" where
  "readNumber None fallback = fallback"
| "readNumber (Some (Fin v)) fallback = v"
| "readNumber (Some _) fallback = fallback"

record MonitorConfig =
  apiBaseUrl :: string
  chainIds :: string
  pages :: real
  limit :: real
  minApr :: real
  minEarnFee :: real
  minVolume :: real
  larkWebhookUrl :: string
  notifyCooldownMs :: real
  notifyStorePath :: string

record NotifyState =
  notifiedAt :: jsnum
  volume :: jsnum

text \<open>
  The \<^verbatim>\<open>Map<string, NotifyState>\<close> of the service, in insertion order.
  \<^verbatim>\<open>Map.prototype.set\<close> replaces the value of a key that is present, in place, and
  appends a key that is new; \<^verbatim>\<open>Map.prototype.get\<close> looks a key up.
\<close>

type_synonym notify_map = "(string \<times> NotifyState) list"

definition Map_set :: "string \<Rightarrow> NotifyState \<Rightarrow> notify_map \<Rightarrow> notify_map" where
  "Map_set k v m = AList.update k v m"

definition Map_get :: "notify_map \<Rightarrow> string \<Rightarrow> NotifyState option" where
  "Map_get m k = map_of m k"

text \<open>The literal \<^verbatim>\<open>0.2\<close> of line 31 is the double nearest to one fifth.\<close>

definition volumeGrowthRatioForRenotify :: jsnum where
  "volumeGrowthRatioForRenotify = Fin (3602879701896397 / 18014398509481984)"

section \<open>Threshold filter and cooldown engine\<close>

text \<open>\<^verbatim>\<open>matches\<close> (lines 137 to 143)\<close>

definition matches :: "MonitorConfig \<Rightarrow> Pool \<Rightarrow> bool" where
  "matches cfg pool =
     (jge (Pool.apr pool) (Fin (minApr cfg)) \<and>
      jge (Pool.earnFee pool) (Fin (minEarnFee cfg)) \<and>
      jge (Pool.volume pool) (Fin (minVolume cfg)))"

text \<open>
  The callback of the filter in \<^verbatim>\<open>applyCooldown\<close> (lines 148 to 165); \<open>now\<close> is
  the reading of \<^verbatim>\<open>Date.now()\<close> of line 146.
\<close>

definition cooldown_keep :: "MonitorConfig \<Rightarrow> notify_map \<Rightarrow> real \<Rightarrow> Pool \<Rightarrow> bool" where
  "cooldown_keep cfg st now pool =
     (let key = toLowerCase (Pool.address pool)
      in case Map_get st key of
           None \<Rightarrow> True
         | Some state \<Rightarrow>
             (let volumeGrowthBase = Math_max (NotifyState.volume state) (Fin 0);
                  volumeIncreaseThreshold =
                    jmul volumeGrowthBase (jadd (Fin 1) volumeGrowthRatioForRenotify)
              in if jge (Pool.volume pool) volumeIncreaseThreshold then True
                 else if notifyCooldownMs cfg \<le> 0 then False
                 else jge (jsub (Fin now) (notifiedAt state)) (Fin (notifyCooldownMs cfg))))"

definition applyCooldown :: "MonitorConfig \<Rightarrow> notify_map \<Rightarrow> real \<Rightarrow> Pool list \<Rightarrow> Pool list" where
  "applyCooldown cfg st now pools = filter (cooldown_keep cfg st now) pools"

section \<open>The snapshot file\<close>

text \<open>
  What \<^verbatim>\<open>JSON.parse\<close> returns. An object is the list of its own properties in the
  order \<^verbatim>\<open>Object.entries\<close> enumerates them; its keys are distinct.
\<close>

datatype json =
    JNull
  | JBool bool
  | JNum jsnum
  | JStr string
  | JArr "json list"
  | JObj "(string \<times> json) list"

text \<open>
  The file at the store path: absent (\<^verbatim>\<open>ENOENT\<close>), present but unreadable, readable
  but not JSON, or holding a JSON value.
\<close>

datatype store_file = Missing | Unreadable | Malformed | Snapshot json

text \<open>Decimal digits of an array index, as property keys have them.\<close>

fun dec :: "nat \<Rightarrow> string" where
  "dec n = (if n < 10 then [char_of (48 + n)] else dec (n div 10) @ [char_of (48 + n mod 10)])"

declare dec.simps [simp del]

datatype error =
    TypeError
  | SyntaxError
  | FsError
  | FetchRejected
  | PoolsApiFailed
  | PoolsApiError
  | LarkNotifyFailed

text \<open>
  \<^verbatim>\<open>Object.entries(data)\<close> on whatever was parsed: it throws on \<^verbatim>\<open>null\<close>,
  enumerates the indices of an array or of a string, and finds nothing on a number or a
  boolean.
\<close>

fun Object_entries :: "json \<Rightarrow> error + (string \<times> json) list" where
  "Object_entries JNull = Inl TypeError"
| "Object_entries (JBool _) = Inr []"
| "Object_entries (JNum _) = Inr []"
| "Object_entries (JStr s) = Inr (zip (map dec [0..<length s]) (map (\<lambda>c. JStr [c]) s))"
| "Object_entries (JArr xs) = Inr (zip (map dec [0..<length xs]) xs)"
| "Object_entries (JObj es) = Inr es"

text \<open>\<^verbatim>\<open>Number.isFinite(value.f)\<close> for a property \<open>f\<close> of a parsed object.\<close>

definition finite_field :: "(string \<times> json) list \<Rightarrow> string \<Rightarrow> jsnum option" where
  "finite_field fs f =
     (case map_of fs f of
        Some (JNum n) \<Rightarrow> (if isFinite n then Some n else None)
      | _ \<Rightarrow> None)"

text \<open>The body of the loop of \<^verbatim>\<open>loadNotifiedState\<close> (lines 178 to 196).\<close>

fun load_entry :: "notify_map \<Rightarrow> string \<times> json \<Rightarrow> notify_map" where
  "load_entry m (addr, JNum v) =
     (if isFinite v
      then Map_set (toLowerCase addr) \<lparr>notifiedAt = v, volume = Fin 0\<rparr> m
      else m)"
| "load_entry m (addr, JObj fs) =
     (case (finite_field fs ''notifiedAt'', finite_field fs ''volume'') of
        (Some n, Some v) \<Rightarrow> Map_set (toLowerCase addr) \<lparr>notifiedAt = n, volume = v\<rparr> m
      | _ \<Rightarrow> m)"
| "load_entry m (addr, _) = m"

definition load_entries :: "notify_map \<Rightarrow> (string \<times> json) list \<Rightarrow> notify_map" where
  "load_entries m es = foldl load_entry m es"

text \<open>
  \<^verbatim>\<open>JSON.stringify\<close> writes a number that is not finite as \<^verbatim>\<open>null\<close>.
\<close>

definition json_of_number :: "jsnum \<Rightarrow> json" where
  "json_of_number n = (if isFinite n then JNum n else JNull)"

definition json_of_state :: "NotifyState \<Rightarrow> json" where
  "json_of_state st =
     JObj [(''notifiedAt'', json_of_number (notifiedAt st)),
           (''volume'', json_of_number (NotifyState.volume st))]"

text \<open>
  The own properties of the object that \<^verbatim>\<open>Object.fromEntries\<close> builds are
  enumerated with the array indices first, in ascending order, and the other keys after
  them in the order of insertion. An array index is the decimal form, without a leading
  zero, of an integer below \<open>2^32 - 1\<close>.
\<close>

definition is_digit :: "char \<Rightarrow> bool" where
  "is_digit c = (48 \<le> (of_char c :: nat) \<and> (of_char c :: nat) \<le> 57)"

definition digits_val :: "string \<Rightarrow> nat" where
  "digits_val s = foldl (\<lambda>n c. 10 * n + ((of_char c :: nat) - 48)) 0 s"

definition is_array_index :: "string \<Rightarrow> bool" where
  "is_array_index k =
     (k \<noteq> [] \<and> list_all is_digit k \<and> (k = ''0'' \<or> hd k \<noteq> CHR ''0'') \<and>
      digits_val k < 2 ^ 32 - 1)"

definition own_property_order :: "(string \<times> 'a) list \<Rightarrow> (string \<times> 'a) list" where
  "own_property_order es =
     sort_key (\<lambda>e. digits_val (fst e)) (filter (\<lambda>e. is_array_index (fst e)) es) @
     filter (\<lambda>e. \<not> is_array_index (fst e)) es"

text \<open>
  The payload of \<^verbatim>\<open>persistNotifiedState\<close> (line 210), as the value that
  \<^verbatim>\<open>JSON.parse\<close> reads back from the text written.
\<close>

definition snapshot_of :: "notify_map \<Rightarrow> json" where
  "snapshot_of m = JObj (own_property_order (map (\<lambda>(k, st). (k, json_of_state st)) m))"

section \<open>The service\<close>

text \<open>
  What the service does to the outside, in the order it does it: log lines, HTTP
  requests, timers and file operations. The card posted to the webhook is built from the
  batch alone (\<^verbatim>\<open>buildLarkCard\<close>), so the request is recorded with the batch.
\<close>

datatype event =
    LogSkipRun
  | LogRunStart
  | HttpGetPools nat
  | Delay nat
  | LogFetched nat
  | LogMatched nat
  | LogAfterCooldown nat
  | LogNoPools
  | WarnNoWebhook
  | HttpPostCard "Pool list"
  | LogNotified nat
  | FsMkdir
  | FsWriteTmp json
  | FsRename
  | ErrorRunFailed error
  | LogRunEnd real
  | FsReadFile
  | LogLoaded nat
  | WarnLoadFailed error

text \<open>
  The fields of the service that change (\<^verbatim>\<open>running\<close>, \<^verbatim>\<open>notifyState\<close>), the
  file at the store path, and the events so far.
\<close>

record monitor =
  running :: bool
  notifyState :: notify_map
  storeFile :: store_file
  trace :: "event list"

definition emit :: "event list \<Rightarrow> monitor \<Rightarrow> monitor" where
  "emit evs s = s\<lparr>trace := trace s @ evs\<rparr>"

text \<open>
  What the outside answers during one cycle: the response to the request for each page,
  the response of the webhook, the outcome of the file operations and the readings of
  \<^verbatim>\<open>Date.now()\<close>.
\<close>

datatype http_response = Rejected | Response bool "PoolsApiResponse option"

datatype webhook_response = WebhookRejected | WebhookStatus bool

datatype fs_outcome = FsOk | MkdirFails | WriteFails | RenameFails

record cycle_env =
  startedAt :: real
  pageResponse :: "nat \<Rightarrow> http_response"
  cooldownNow :: real
  webhook :: webhook_response
  notifiedNow :: real
  fsOutcome :: fs_outcome
  endedAt :: real

text \<open>
  Lines 117 to 125: a request that is rejected, a status that is not ok, a body that is
  not JSON, a code other than 0 or a body without pools each throw.
\<close>

fun page_pools :: "http_response \<Rightarrow> error + Pool list" where
  "page_pools Rejected = Inl FetchRejected"
| "page_pools (Response ok body) =
     (if \<not> ok then Inl PoolsApiFailed
      else case body of
             None \<Rightarrow> Inl SyntaxError
           | Some b \<Rightarrow>
               (if code b \<noteq> Fin 0 then Inl PoolsApiError
                else case data_pools b of
                       None \<Rightarrow> Inl PoolsApiError
                     | Some ps \<Rightarrow> Inr ps))"

text \<open>The loop of \<^verbatim>\<open>fetchPools\<close> (lines 103 to 132), from page \<open>page\<close> on.\<close>

function fetchPools_loop ::
  "MonitorConfig \<Rightarrow> (nat \<Rightarrow> http_response) \<Rightarrow> nat \<Rightarrow> Pool list \<Rightarrow> event list \<Rightarrow>
   (error + Pool list) \<times> event list" where
  "fetchPools_loop cfg resp page pools evs =
     (if real page \<le> pages cfg
      then (case page_pools (resp page) of
              Inl e \<Rightarrow> (Inl e, evs @ [HttpGetPools page])
            | Inr ps \<Rightarrow>
                fetchPools_loop cfg resp (page + 1) (pools @ ps)
                  (evs @ [HttpGetPools page] @
                     (if real page < pages cfg then [Delay 5000] else [])))
      else (Inr pools, evs))"
  by pat_completeness auto
termination
proof (relation "measure (\<lambda>(cfg, resp, page, pools, evs). nat (\<lfloor>pages cfg\<rfloor> + 1) - page)",
    goal_cases)
  case 1
  show ?case by simp
next
  case (2 cfg resp page ps)
  from 2(1) have "int page \<le> \<lfloor>pages cfg\<rfloor>"
    by (simp add: le_floor_iff)
  then show ?case by simp
qed

declare fetchPools_loop.simps [simp del]

definition fetchPools ::
  "MonitorConfig \<Rightarrow> (nat \<Rightarrow> http_response) \<Rightarrow> (error + Pool list) \<times> event list" where
  "fetchPools cfg resp = fetchPools_loop cfg resp 1 [] []"

text \<open>\<^verbatim>\<open>notifyLark\<close> (lines 222 to 243)\<close>

definition notifyLark ::
  "MonitorConfig \<Rightarrow> webhook_response \<Rightarrow> Pool list \<Rightarrow> (error + unit) \<times> event list" where
  "notifyLark cfg answer pools =
     (if larkWebhookUrl cfg = [] then (Inr (), [WarnNoWebhook])
      else case answer of
             WebhookRejected \<Rightarrow> (Inl FetchRejected, [HttpPostCard pools])
           | WebhookStatus ok \<Rightarrow>
               (if \<not> ok then (Inl LarkNotifyFailed, [HttpPostCard pools])
                else (Inr (), [HttpPostCard pools])))"

text \<open>\<^verbatim>\<open>persistNotifiedState\<close> (lines 206 to 214)\<close>

definition persistNotifiedState :: "fs_outcome \<Rightarrow> monitor \<Rightarrow> (error + unit) \<times> monitor" where
  "persistNotifiedState outcome s =
     (let payload = snapshot_of (notifyState s)
      in case outcome of
           MkdirFails \<Rightarrow> (Inl FsError, emit [FsMkdir] s)
         | WriteFails \<Rightarrow> (Inl FsError, emit [FsMkdir, FsWriteTmp payload] s)
         | RenameFails \<Rightarrow> (Inl FsError, emit [FsMkdir, FsWriteTmp payload, FsRename] s)
         | FsOk \<Rightarrow>
             (Inr (), emit [FsMkdir, FsWriteTmp payload, FsRename]
                        (s\<lparr>storeFile := Snapshot payload\<rparr>)))"

text \<open>\<^verbatim>\<open>loadNotifiedState\<close> (lines 169 to 204)\<close>

definition loadNotifiedState :: "monitor \<Rightarrow> monitor" where
  "loadNotifiedState s =
     (case storeFile s of
        Missing \<Rightarrow> emit [FsReadFile] s
      | Unreadable \<Rightarrow> emit [FsReadFile, WarnLoadFailed FsError] s
      | Malformed \<Rightarrow> emit [FsReadFile, WarnLoadFailed SyntaxError] s
      | Snapshot data \<Rightarrow>
          (case Object_entries data of
             Inl e \<Rightarrow> emit [FsReadFile, WarnLoadFailed e] s
           | Inr es \<Rightarrow>
               (let m = load_entries (notifyState s) es
                in emit [FsReadFile, LogLoaded (length m)] (s\<lparr>notifyState := m\<rparr>))))"

text \<open>The loop of lines 84 to 89.\<close>

definition record_notified :: "real \<Rightarrow> notify_map \<Rightarrow> Pool list \<Rightarrow> notify_map" where
  "record_notified now m deduped =
     foldl (\<lambda>m pool. Map_set (toLowerCase (Pool.address pool))
                        \<lparr>notifiedAt = Fin now, volume = Pool.volume pool\<rparr> m)
           m deduped"

text \<open>The \<^verbatim>\<open>try\<close> block of \<^verbatim>\<open>runOnce\<close> (lines 70 to 90).\<close>

definition runOnce_try :: "MonitorConfig \<Rightarrow> cycle_env \<Rightarrow> monitor \<Rightarrow> (error + unit) \<times> monitor" where
  "runOnce_try cfg env s =
     (case fetchPools cfg (pageResponse env) of
        (Inl e, evs) \<Rightarrow> (Inl e, emit evs s)
      | (Inr pools, evs) \<Rightarrow>
          (let s1 = emit (evs @ [LogFetched (length pools)]) s;
               filtered = filter (matches cfg) pools;
               s2 = emit [LogMatched (length filtered)] s1;
               deduped = applyCooldown cfg (notifyState s2) (cooldownNow env) filtered;
               s3 = emit [LogAfterCooldown (length deduped)] s2
           in if length deduped = 0 then (Inr (), emit [LogNoPools] s3)
              else (case notifyLark cfg (webhook env) deduped of
                      (Inl e, evs') \<Rightarrow> (Inl e, emit evs' s3)
                    | (Inr _, evs') \<Rightarrow>
                        (let s4 = emit (evs' @ [LogNotified (length deduped)]) s3;
                             s5 = s4\<lparr>notifyState :=
                                        record_notified (notifiedNow env) (notifyState s4) deduped\<rparr>
                         in persistNotifiedState (fsOutcome env) s5))))"

text \<open>
  A cycle in progress: the \<^verbatim>\<open>try\<close> block, then \<^verbatim>\<open>catch\<close> and
  \<^verbatim>\<open>finally\<close> (lines 69 to 97).
\<close>

definition runOnce_body :: "MonitorConfig \<Rightarrow> cycle_env \<Rightarrow> monitor \<Rightarrow> monitor" where
  "runOnce_body cfg env s =
     (let (r, s') = runOnce_try cfg env s;
          s'' = (case r of
                   Inl e \<Rightarrow> emit [ErrorRunFailed e] s'
                 | Inr _ \<Rightarrow> s')
      in (emit [LogRunEnd (endedAt env - startedAt env)] s'')\<lparr>running := False\<rparr>)"

text \<open>
  The guard of \<^verbatim>\<open>runOnce\<close> (lines 60 to 68): on the left the service after a
  tick that is skipped, on the right the service with the flag set, as it is while the cycle is in progress.
\<close>

definition runOnce_enter :: "monitor \<Rightarrow> monitor + monitor" where
  "runOnce_enter s =
     (if running s then Inl (emit [LogSkipRun] s)
      else Inr (emit [LogRunStart] (s\<lparr>running := True\<rparr>)))"

text \<open>\<^verbatim>\<open>runOnce\<close> (lines 59 to 98), run to its end.\<close>

definition runOnce :: "MonitorConfig \<Rightarrow> cycle_env \<Rightarrow> monitor \<Rightarrow> monitor" where
  "runOnce cfg env s =
     (case runOnce_enter s of
        Inl skipped \<Rightarrow> skipped
      | Inr started \<Rightarrow> runOnce_body cfg env started)"

text \<open>\<^verbatim>\<open>onModuleInit\<close> (lines 53 to 56)\<close>

definition onModuleInit :: "MonitorConfig \<Rightarrow> cycle_env \<Rightarrow> monitor \<Rightarrow> monitor" where
  "onModuleInit cfg env s = runOnce cfg env (loadNotifiedState s)"

text \<open>The service as the constructor leaves it, beside a store file \<open>f\<close>.\<close>

definition initial :: "store_file \<Rightarrow> monitor" where
  "initial f = \<lparr>running = False, notifyState = [], storeFile = f, trace = []\<rparr>"

section \<open>Reading the store back\<close>

text \<open>
  The record that an entry of the snapshot stands for, if any, and the entries that
  count, under their lowercased keys; both restate the two tests of the loop of
  \<open>loadNotifiedState\<close> and are related to \<open>load_entry\<close> below.
\<close>

fun entry_state :: "json \<Rightarrow> NotifyState option" where
  "entry_state (JNum v) = (if isFinite v then Some \<lparr>notifiedAt = v, volume = Fin 0\<rparr> else None)"
| "entry_state (JObj fs) =
     (case (finite_field fs ''notifiedAt'', finite_field fs ''volume'') of
        (Some n, Some v) \<Rightarrow> Some \<lparr>notifiedAt = n, volume = v\<rparr>
      | _ \<Rightarrow> None)"
| "entry_state _ = None"

fun decoded :: "(string \<times> json) list \<Rightarrow> notify_map" where
  "decoded [] = []"
| "decoded ((k, v) # es) =
     (case entry_state v of
        Some st \<Rightarrow> (toLowerCase k, st) # decoded es
      | None \<Rightarrow> decoded es)"

text \<open>A record whose two numbers are finite.\<close>

definition finite_state :: "NotifyState \<Rightarrow> bool" where
  "finite_state st = (isFinite (notifiedAt st) \<and> isFinite (NotifyState.volume st))"

text \<open>
  The map of a service that starts on the store file as a successful
  \<open>persistNotifiedState\<close> of the service \<open>s\<close> left it, after its \<open>loadNotifiedState\<close>.
\<close>

definition reloaded :: "monitor \<Rightarrow> notify_map" where
  "reloaded s =
     notifyState (loadNotifiedState (initial (storeFile (snd (persistNotifiedState FsOk s)))))"

text \<open>The events that are calls to the fetch client, to the webhook and to the store.\<close>

fun is_fetch_call :: "event \<Rightarrow> bool" where
  "is_fetch_call (HttpGetPools _) = True"
| "is_fetch_call _ = False"

fun is_notify_call :: "event \<Rightarrow> bool" where
  "is_notify_call (HttpPostCard _) = True"
| "is_notify_call _ = False"

fun is_persist_call :: "event \<Rightarrow> bool" where
  "is_persist_call FsMkdir = True"
| "is_persist_call (FsWriteTmp _) = True"
| "is_persist_call FsRename = True"
| "is_persist_call _ = False"

section \<open>Runs of the service\<close>

text \<open>
  The keys of a map are normalized when each is its own lowercase form and no two of
  them have the same lowercase form.
\<close>

definition normalized_keys :: "notify_map \<Rightarrow> bool" where
  "normalized_keys m =
     ((\<forall>e\<in>set m. toLowerCase (fst e) = fst e) \<and> distinct (map (\<lambda>e. toLowerCase (fst e)) m))"

text \<open>A snapshot that is an object with lowercase keys, and the snapshots written so far.\<close>

fun keyed_lowercase :: "json \<Rightarrow> bool" where
  "keyed_lowercase (JObj es) =
     ((\<forall>e\<in>set es. toLowerCase (fst e) = fst e) \<and> distinct (map fst es))"
| "keyed_lowercase _ = False"

fun written_snapshots :: "event list \<Rightarrow> json list" where
  "written_snapshots [] = []"
| "written_snapshots (FsWriteTmp payload # evs) = payload # written_snapshots evs"
| "written_snapshots (_ # evs) = written_snapshots evs"

text \<open>
  What happens to the service, one call after the other: the load at start-up, a tick of
  the scheduler through the guard of \<open>runOnce\<close> (lines 60 to 68), and the rest of a cycle
  in progress. The request for the first page, which the code sends before the tick
  returns, is recorded with the rest of the cycle.
\<close>

datatype call = Load | Tick | Settle cycle_env

fun step :: "MonitorConfig \<Rightarrow> monitor \<Rightarrow> call \<Rightarrow> monitor" where
  "step cfg s Load = loadNotifiedState s"
| "step cfg s Tick = (case runOnce_enter s of Inl skipped \<Rightarrow> skipped | Inr started \<Rightarrow> started)"
| "step cfg s (Settle env) = (if running s then runOnce_body cfg env s else s)"

definition run_calls :: "MonitorConfig \<Rightarrow> monitor \<Rightarrow> call list \<Rightarrow> monitor" where
  "run_calls cfg s calls = foldl (step cfg) s calls"

text \<open>
  The invariant carried through the calls: normalized keys in the map, lowercase keys in
  every snapshot written, and a store file that is either the file \<open>f\<close> found at the
  start or a snapshot with lowercase keys.
\<close>

definition store_invariant :: "store_file \<Rightarrow> monitor \<Rightarrow> bool" where
  "store_invariant f s =
     (normalized_keys (notifyState s) \<and>
      (\<forall>p\<in>set (written_snapshots (trace s)). keyed_lowercase p) \<and>
      (storeFile s = f \<or> (\<exists>p. storeFile s = Snapshot p \<and> keyed_lowercase p)))"

section \<open>Sample inputs\<close>

text \<open>
  A pool with the three metrics the filter reads, and the default configuration
  (lines 34 to 50) with a given webhook target and cooldown.
\<close>

definition sample_pool :: "string \<Rightarrow> jsnum \<Rightarrow> jsnum \<Rightarrow> jsnum \<Rightarrow> Pool" where
  "sample_pool addr a fee vol =
     \<lparr>address = addr, earnFee = fee, egUsd = Fin 0, exchange = ''uniswapv3'',
      feeTier = Fin 0, volume = vol, liquidity = Fin 0, tvl = Fin 0, apr = a,
      allApr = Fin 0, lpApr = Fin 0, kemApr = Fin 0, tokens = [],
      chain = \<lparr>chain_id = Fin 8453, chain_name = ''base'', logoUrl = []\<rparr>\<rparr>"

definition sample_config :: "string \<Rightarrow> real \<Rightarrow> MonitorConfig" where
  "sample_config url cooldown =
     \<lparr>apiBaseUrl = ''https://earn-service.kyberswap.com/api/v1/explorer/pools'',
      chainIds = ''8453,56'', pages = 1, limit = 10, minApr = 3000, minEarnFee = 1000,
      minVolume = 100000, larkWebhookUrl = url, notifyCooldownMs = cooldown,
      notifyStorePath = ''data/pool-notify.json''\<rparr>"

text \<open>
  A cycle in which the one page requested answers with the given pools, the webhook
  answers as given and the file operations succeed.
\<close>

definition sample_env :: "Pool list \<Rightarrow> webhook_response \<Rightarrow> cycle_env" where
  "sample_env ps answer =
     \<lparr>startedAt = 1000, pageResponse = (\<lambda>page. Response True
          (Some \<lparr>code = Fin 0, message = [], data_pools = Some ps\<rparr>)),
      cooldownNow = 2000, webhook = answer, notifiedNow = 3000, fsOutcome = FsOk,
      endedAt = 4000\<rparr>"

text \<open>A service with two records, one of them under a key that is an array index.\<close>

definition sample_store :: monitor where
  "sample_store =
     \<lparr>running = False,
      notifyState = [(''0xabc'', \<lparr>notifiedAt = Fin 3000, volume = Fin 150000\<rparr>),
                     (''7'', \<lparr>notifiedAt = Fin 1, volume = Fin 0\<rparr>)],
      storeFile = Missing, trace = []\<rparr>"

text \<open>
  A store file with a legacy entry under a key in capitals and three entries that are
  neither a number nor a complete record.
\<close>

definition sample_legacy_file :: store_file where
  "sample_legacy_file =
     Snapshot (JObj [(''0xABC'', JNum (Fin 1700000000000)),
                     (''0xdef'', JStr ''yesterday''),
                     (''0x123'', JObj [(''notifiedAt'', JNum (Fin 5))]),
                     (''0x456'', JNull)])"

section \<open>Numbers and strings: basic facts\<close>

text \<open>Evaluating the rounding: the exponent of a number between two powers of two.\<close>

lemma jge_NaN_right [simp]: "jge a NaN = False"
  by (cases a) simp_all

lemma pow2_powr: "pow2 k = 2 powr (of_int k)"
  by (simp add: pow2_def powr_int)

lemma pow2_pos [simp]: "0 < pow2 k"
  by (simp add: pow2_powr)

lemma binary_exponent_eq:
  assumes "- 1022 \<le> k" and "pow2 k \<le> \<bar>x\<bar>" and "\<bar>x\<bar> < pow2 (k + 1)"
  shows "binary_exponent x = k"
proof -
  have pos: "0 < \<bar>x\<bar>"
    using assms(2) pow2_pos [of k] by linarith
  have "of_int k \<le> log 2 \<bar>x\<bar>"
    using assms(2) pos by (simp add: le_log_iff pow2_powr)
  moreover have "log 2 \<bar>x\<bar> < of_int k + 1"
    using assms(3) pos by (simp add: log_less_iff pow2_powr)
  ultimately have "\<lfloor>log 2 \<bar>x\<bar>\<rfloor> = k"
    by (rule floor_unique)
  with assms(1) show ?thesis
    by (simp add: binary_exponent_def)
qed

lemma round_half_even_eqI:
  assumes "of_int n - 1 / 2 < y" and "y < of_int n + 1 / 2"
  shows "round_half_even y = n"
proof (cases "of_int n \<le> y")
  case True
  with assms(2) have "\<lfloor>y\<rfloor> = n"
    by (intro floor_unique) simp_all
  with assms(2) show ?thesis
    by (simp add: round_half_even_def Let_def)
next
  case False
  with assms(1) have "\<lfloor>y\<rfloor> = n - 1"
    by (intro floor_unique) simp_all
  with assms(1) False show ?thesis
    by (simp add: round_half_even_def Let_def)
qed

text \<open>
  The double nearest to \<open>x\<close>, from the exponent \<open>k\<close> of \<open>x\<close> and the integer \<open>n\<close>
  nearest to \<open>x\<close> in units of \<open>2^(k - 52)\<close>.
\<close>

lemma to_double_eq:
  assumes "- 1022 \<le> k" and "pow2 k \<le> \<bar>x\<bar>" and "\<bar>x\<bar> < pow2 (k + 1)"
    and "of_int n - 1 / 2 < x / pow2 (k - 52)" and "x / pow2 (k - 52) < of_int n + 1 / 2"
    and "y = of_int n * pow2 (k - 52)" and "\<bar>y\<bar> < 2 ^ 1024"
  shows "to_double x = Fin y"
proof -
  have "0 < \<bar>x\<bar>"
    using assms(2) pow2_pos [of k] by linarith
  then have "x \<noteq> 0"
    by simp
  moreover have "binary_exponent x = k"
    using assms(1-3) by (rule binary_exponent_eq)
  moreover have "round_half_even (x / pow2 (k - 52)) = n"
    using assms(4,5) by (rule round_half_even_eqI)
  ultimately show ?thesis
    using assms(6,7) by (simp add: to_double_def Let_def abs_less_iff not_le)
qed

lemma to_double_0 [simp]: "to_double 0 = Fin 0"
  by (simp add: to_double_def)

lemma jsub_Fin: "jsub (Fin a) (Fin b) = to_double (a - b)"
  by (simp add: jsub_def)

text \<open>\<^verbatim>\<open>1 + 0.2\<close> is the double nearest to \<open>1.2\<close>, which lies below \<open>1.2\<close>.\<close>

lemma growth_factor:
  "jadd (Fin 1) volumeGrowthRatioForRenotify = Fin (5404319552844595 / 4503599627370496)"
  unfolding volumeGrowthRatioForRenotify_def jadd.simps
  by (rule to_double_eq [where k = 0 and n = 5404319552844595]) (simp_all add: pow2_def)

text \<open>The thresholds and the differences of times of the sample cycles.\<close>

lemma threshold_0: "jmul (Fin 0) (jadd (Fin 1) volumeGrowthRatioForRenotify) = Fin 0"
  by (simp add: growth_factor)

lemma threshold_150000:
  "jmul (Fin 150000) (jadd (Fin 1) volumeGrowthRatioForRenotify) = Fin 180000"
  unfolding growth_factor jmul.simps
  by (rule to_double_eq [where k = 17 and n = 6184752906240000]) (simp_all add: pow2_def)

lemma threshold_100003:
  "jmul (Fin 100003) (jadd (Fin 1) volumeGrowthRatioForRenotify) =
     Fin (8246584598436249 / 68719476736)"
  unfolding growth_factor jmul.simps
  by (rule to_double_eq [where k = 16 and n = 8246584598436249]) (simp_all add: pow2_def)

lemma to_double_2000: "to_double 2000 = Fin 2000"
  by (rule to_double_eq [where k = 10 and n = 8796093022208000]) (simp_all add: pow2_def)

lemma to_double_86399999: "to_double 86399999 = Fin 86399999"
  by (rule to_double_eq [where k = 26 and n = 5798205782491136]) (simp_all add: pow2_def)

lemma to_double_86400000: "to_double 86400000 = Fin 86400000"
  by (rule to_double_eq [where k = 26 and n = 5798205849600000]) (simp_all add: pow2_def)

lemma toLowerCase_Nil [simp]: "toLowerCase [] = []"
  by (simp add: toLowerCase_def)

lemma toLowerCase_Cons [simp]: "toLowerCase (c # cs) = char_toLowerCase c # toLowerCase cs"
  by (simp add: toLowerCase_def)

lemma char_toLowerCase_idem: "char_toLowerCase (char_toLowerCase c) = char_toLowerCase c"
  by (simp add: char_toLowerCase_def)

lemma toLowerCase_idem [simp]: "toLowerCase (toLowerCase s) = toLowerCase s"
  by (induction s) (simp_all add: char_toLowerCase_idem)

section \<open>Threshold filter\<close>

text \<open>
  C3, as the code has it. On a pool whose three metrics are numbers, \<open>matches\<close> is a
  total, state-free predicate that holds exactly when the three comparisons
  \<open>apr \<ge> minApr\<close>, \<open>earnFee \<ge> minEarnFee\<close> and \<open>volume \<ge> minVolume\<close> of the source
  hold; on finite metrics the comparisons are the ones of the reals. A metric that is NaN
  or \<open>-Infinity\<close> makes it false. A metric that is \<open>+Infinity\<close> satisfies every minimum, so
  a pool with three such metrics passes: nothing in \<open>matches\<close> rejects a number for not
  being finite.
\<close>

theorem matches_threshold:
  "(matches cfg pool \<longleftrightarrow>
      jge (Pool.apr pool) (Fin (minApr cfg)) \<and>
      jge (Pool.earnFee pool) (Fin (minEarnFee cfg)) \<and>
      jge (Pool.volume pool) (Fin (minVolume cfg))) \<and>
   (Pool.apr pool = NaN \<or> Pool.earnFee pool = NaN \<or> Pool.volume pool = NaN
      \<longrightarrow> \<not> matches cfg pool) \<and>
   (Pool.apr pool = NegInf \<or> Pool.earnFee pool = NegInf \<or> Pool.volume pool = NegInf
      \<longrightarrow> \<not> matches cfg pool) \<and>
   (Pool.apr pool = PosInf \<and> Pool.earnFee pool = PosInf \<and> Pool.volume pool = PosInf
      \<longrightarrow> matches cfg pool) \<and>
   (\<forall>a e v. Pool.apr pool = Fin a \<and> Pool.earnFee pool = Fin e \<and> Pool.volume pool = Fin v
      \<longrightarrow> (matches cfg pool \<longleftrightarrow> minApr cfg \<le> a \<and> minEarnFee cfg \<le> e \<and> minVolume cfg \<le> v))"
  by (auto simp: matches_def)

theorem matches_threshold_witness:
  "matches (sample_config [] 0) (sample_pool ''0xAbC'' (Fin 4000) (Fin 2000) (Fin 150000)) \<and>
   \<not> matches (sample_config [] 0) (sample_pool ''0xAbC'' (Fin 4000) (Fin 999) (Fin 150000)) \<and>
   \<not> matches (sample_config [] 0) (sample_pool ''0xAbC'' (Fin 4000) (Fin 2000) NaN) \<and>
   \<not> matches (sample_config [] 0) (sample_pool ''0xAbC'' NegInf (Fin 2000) (Fin 150000)) \<and>
   matches (sample_config [] 0) (sample_pool ''0xAbC'' PosInf PosInf PosInf)"
proof -
  let ?cfg = "sample_config [] 0"
  have "matches ?cfg (sample_pool ''0xAbC'' (Fin 4000) (Fin 2000) (Fin 150000))"
    using matches_threshold [of ?cfg "sample_pool ''0xAbC'' (Fin 4000) (Fin 2000) (Fin 150000)"]
    by (simp add: sample_config_def sample_pool_def)
  moreover have "\<not> matches ?cfg (sample_pool ''0xAbC'' (Fin 4000) (Fin 999) (Fin 150000))"
    using matches_threshold [of ?cfg "sample_pool ''0xAbC'' (Fin 4000) (Fin 999) (Fin 150000)"]
    by (simp add: sample_config_def sample_pool_def)
  moreover have "\<not> matches ?cfg (sample_pool ''0xAbC'' (Fin 4000) (Fin 2000) NaN)"
    using matches_threshold [of ?cfg "sample_pool ''0xAbC'' (Fin 4000) (Fin 2000) NaN"]
    by (simp add: sample_pool_def)
  moreover have "\<not> matches ?cfg (sample_pool ''0xAbC'' NegInf (Fin 2000) (Fin 150000))"
    using matches_threshold [of ?cfg "sample_pool ''0xAbC'' NegInf (Fin 2000) (Fin 150000)"]
    by (simp add: sample_pool_def)
  moreover have "matches ?cfg (sample_pool ''0xAbC'' PosInf PosInf PosInf)"
    using matches_threshold [of ?cfg "sample_pool ''0xAbC'' PosInf PosInf PosInf"]
    by (simp add: sample_pool_def)
  ultimately show ?thesis
    by (intro conjI)
qed

text \<open>
  A pool whose three metrics are \<open>+Infinity\<close>, which a response holding \<^verbatim>\<open>1e999\<close>
  parses to, is not a pool of finite numbers, and it passes the default thresholds.
\<close>

theorem matches_infinite_metrics_counterexample:
  "\<not> isFinite (Pool.apr (sample_pool ''0xAbC'' PosInf PosInf PosInf)) \<and>
   \<not> isFinite (Pool.earnFee (sample_pool ''0xAbC'' PosInf PosInf PosInf)) \<and>
   \<not> isFinite (Pool.volume (sample_pool ''0xAbC'' PosInf PosInf PosInf)) \<and>
   matches (sample_config [] 0) (sample_pool ''0xAbC'' PosInf PosInf PosInf)"
  by (simp add: matches_def sample_pool_def)

section \<open>Cooldown engine\<close>

text \<open>
  C1. \<open>applyCooldown\<close> keeps, in their order, exactly the pools that either have no
  record under their lowercased address, or whose volume is at least
  \<open>max(priorVolume, 0) * (1 + 0.2)\<close>, or for which the cooldown \<open>c\<close> is positive and
  \<open>now - priorNotifiedAt \<ge> c\<close>; the sum, the product and the difference are those of
  doubles, as in lines 154 to 165. In particular a pool with a record, a volume that does
  not reach the threshold and \<open>c \<le> 0\<close> is dropped. For a record and a volume that are
  finite, the threshold is the double nearest to \<open>max(priorVolume, 0)\<close> times the double
  \<open>1.2\<close>, and the time passed is the double nearest to \<open>now - priorNotifiedAt\<close>.
\<close>

theorem applyCooldown_decision:
  "applyCooldown cfg st now pools =
     filter (\<lambda>pool.
       case Map_get st (toLowerCase (Pool.address pool)) of
         None \<Rightarrow> True
       | Some prior \<Rightarrow>
           jge (Pool.volume pool)
               (jmul (Math_max (NotifyState.volume prior) (Fin 0))
                     (jadd (Fin 1) volumeGrowthRatioForRenotify)) \<or>
           (0 < notifyCooldownMs cfg \<and>
            jge (jsub (Fin now) (notifiedAt prior)) (Fin (notifyCooldownMs cfg)))) pools \<and>
   (\<forall>pool prior.
      Map_get st (toLowerCase (Pool.address pool)) = Some prior \<and>
      \<not> jge (Pool.volume pool)
             (jmul (Math_max (NotifyState.volume prior) (Fin 0))
                   (jadd (Fin 1) volumeGrowthRatioForRenotify)) \<and>
      notifyCooldownMs cfg \<le> 0
      \<longrightarrow> pool \<notin> set (applyCooldown cfg st now pools)) \<and>
   (\<forall>pool. Map_get st (toLowerCase (Pool.address pool)) = None
      \<longrightarrow> (pool \<in> set (applyCooldown cfg st now pools) \<longleftrightarrow> pool \<in> set pools)) \<and>
   (\<forall>pool t V v.
      Map_get st (toLowerCase (Pool.address pool)) = Some \<lparr>notifiedAt = Fin t, volume = Fin V\<rparr> \<and>
      Pool.volume pool = Fin v
      \<longrightarrow> (pool \<in> set (applyCooldown cfg st now pools) \<longleftrightarrow>
             pool \<in> set pools \<and>
             (jge (Fin v) (to_double (max V 0 * (5404319552844595 / 4503599627370496))) \<or>
              0 < notifyCooldownMs cfg \<and>
              jge (to_double (now - t)) (Fin (notifyCooldownMs cfg)))))"
proof (intro conjI allI impI)
  show "applyCooldown cfg st now pools =
     filter (\<lambda>pool.
       case Map_get st (toLowerCase (Pool.address pool)) of
         None \<Rightarrow> True
       | Some prior \<Rightarrow>
           jge (Pool.volume pool)
               (jmul (Math_max (NotifyState.volume prior) (Fin 0))
                     (jadd (Fin 1) volumeGrowthRatioForRenotify)) \<or>
           (0 < notifyCooldownMs cfg \<and>
            jge (jsub (Fin now) (notifiedAt prior)) (Fin (notifyCooldownMs cfg)))) pools"
    unfolding applyCooldown_def
    by (rule filter_cong) (auto simp: cooldown_keep_def Let_def split: option.splits)
next
  fix pool :: Pool and prior :: NotifyState
  assume "Map_get st (toLowerCase (Pool.address pool)) = Some prior \<and>
      \<not> jge (Pool.volume pool)
             (jmul (Math_max (NotifyState.volume prior) (Fin 0))
                   (jadd (Fin 1) volumeGrowthRatioForRenotify)) \<and>
      notifyCooldownMs cfg \<le> 0"
  then show "pool \<notin> set (applyCooldown cfg st now pools)"
    by (simp add: applyCooldown_def cooldown_keep_def Let_def)
next
  fix pool :: Pool
  assume "Map_get st (toLowerCase (Pool.address pool)) = None"
  then show "pool \<in> set (applyCooldown cfg st now pools) \<longleftrightarrow> pool \<in> set pools"
    by (simp add: applyCooldown_def cooldown_keep_def)
next
  fix pool :: Pool and t V v :: real
  assume "Map_get st (toLowerCase (Pool.address pool)) =
      Some \<lparr>notifiedAt = Fin t, volume = Fin V\<rparr> \<and> Pool.volume pool = Fin v"
  then show "pool \<in> set (applyCooldown cfg st now pools) \<longleftrightarrow>
             pool \<in> set pools \<and>
             (jge (Fin v) (to_double (max V 0 * (5404319552844595 / 4503599627370496))) \<or>
              0 < notifyCooldownMs cfg \<and>
              jge (to_double (now - t)) (Fin (notifyCooldownMs cfg)))"
    by (auto simp: applyCooldown_def cooldown_keep_def Let_def growth_factor jsub_Fin)
qed

text \<open>
  One cycle at time 100000000 with a cooldown of one day (86400000 ms). Of six pools:
  the first has a record one millisecond short of a day old and the same volume, and is
  dropped; the second has no record and is kept; the third has that record and a volume
  of 200000, above the threshold 180000, and is kept; the fourth has a record of volume
  100003 and the volume 120003.59999999999, which is the product of 100003 and 1.2 as
  doubles and lies below 120003.6, and is kept; the fifth has a record exactly a day
  old and is kept; the sixth has a record of volume -5 and the volume -1, below the
  threshold 0, and is dropped. With the cooldown switched off only the growth counts.
\<close>

theorem applyCooldown_decision_witness:
  "applyCooldown (sample_config [] 86400000)
     [(''0xabc'', \<lparr>notifiedAt = Fin 13600001, volume = Fin 150000\<rparr>),
      (''0xb0b'', \<lparr>notifiedAt = Fin 13600001, volume = Fin 100003\<rparr>),
      (''0x01d'', \<lparr>notifiedAt = Fin 13600000, volume = Fin 150000\<rparr>),
      (''0xbad'', \<lparr>notifiedAt = Fin 13600001, volume = Fin (- 5)\<rparr>)] 100000000
     [sample_pool ''0xABC'' (Fin 4000) (Fin 2000) (Fin 150000),
      sample_pool ''0xDEF'' (Fin 4000) (Fin 2000) (Fin 150000),
      sample_pool ''0xAbc'' (Fin 4000) (Fin 2000) (Fin 200000),
      sample_pool ''0xB0B'' (Fin 4000) (Fin 2000) (Fin (8246584598436249 / 68719476736)),
      sample_pool ''0x01D'' (Fin 4000) (Fin 2000) (Fin 150000),
      sample_pool ''0xBAD'' (Fin 4000) (Fin 2000) (Fin (- 1))] =
     [sample_pool ''0xDEF'' (Fin 4000) (Fin 2000) (Fin 150000),
      sample_pool ''0xAbc'' (Fin 4000) (Fin 2000) (Fin 200000),
      sample_pool ''0xB0B'' (Fin 4000) (Fin 2000) (Fin (8246584598436249 / 68719476736)),
      sample_pool ''0x01D'' (Fin 4000) (Fin 2000) (Fin 150000)] \<and>
   applyCooldown (sample_config [] 0)
     [(''0xabc'', \<lparr>notifiedAt = Fin 13600001, volume = Fin 150000\<rparr>),
      (''0x01d'', \<lparr>notifiedAt = Fin 13600000, volume = Fin 150000\<rparr>)] 100000000
     [sample_pool ''0xABC'' (Fin 4000) (Fin 2000) (Fin 150000),
      sample_pool ''0xAbc'' (Fin 4000) (Fin 2000) (Fin 200000),
      sample_pool ''0x01D'' (Fin 4000) (Fin 2000) (Fin 150000)] =
     [sample_pool ''0xAbc'' (Fin 4000) (Fin 2000) (Fin 200000)] \<and>
   (8246584598436249 / 68719476736 :: real) < 100003 * (12 / 10)"
proof -
  have low: "toLowerCase ''0xABC'' = ''0xabc''" "toLowerCase ''0xAbc'' = ''0xabc''"
    "toLowerCase ''0xDEF'' = ''0xdef''" "toLowerCase ''0xB0B'' = ''0xb0b''"
    "toLowerCase ''0x01D'' = ''0x01d''" "toLowerCase ''0xBAD'' = ''0xbad''"
    by (simp_all add: char_toLowerCase_def)
  have addr: "Pool.address (sample_pool a x y z) = a" "Pool.volume (sample_pool a x y z) = z"
    for a x y z
    by (simp_all add: sample_pool_def)
  have cool: "notifyCooldownMs (sample_config u c) = c" for u c
    by (simp add: sample_config_def)
  have day: "applyCooldown (sample_config [] 86400000)
     [(''0xabc'', \<lparr>notifiedAt = Fin 13600001, volume = Fin 150000\<rparr>),
      (''0xb0b'', \<lparr>notifiedAt = Fin 13600001, volume = Fin 100003\<rparr>),
      (''0x01d'', \<lparr>notifiedAt = Fin 13600000, volume = Fin 150000\<rparr>),
      (''0xbad'', \<lparr>notifiedAt = Fin 13600001, volume = Fin (- 5)\<rparr>)] 100000000
     [sample_pool ''0xABC'' (Fin 4000) (Fin 2000) (Fin 150000),
      sample_pool ''0xDEF'' (Fin 4000) (Fin 2000) (Fin 150000),
      sample_pool ''0xAbc'' (Fin 4000) (Fin 2000) (Fin 200000),
      sample_pool ''0xB0B'' (Fin 4000) (Fin 2000) (Fin (8246584598436249 / 68719476736)),
      sample_pool ''0x01D'' (Fin 4000) (Fin 2000) (Fin 150000),
      sample_pool ''0xBAD'' (Fin 4000) (Fin 2000) (Fin (- 1))] =
     [sample_pool ''0xDEF'' (Fin 4000) (Fin 2000) (Fin 150000),
      sample_pool ''0xAbc'' (Fin 4000) (Fin 2000) (Fin 200000),
      sample_pool ''0xB0B'' (Fin 4000) (Fin 2000) (Fin (8246584598436249 / 68719476736)),
      sample_pool ''0x01D'' (Fin 4000) (Fin 2000) (Fin 150000)]"
    by (subst applyCooldown_decision [THEN conjunct1])
       (simp add: low addr cool Map_get_def jsub_Fin threshold_0 threshold_150000
          threshold_100003 to_double_86399999 to_double_86400000 del: toLowerCase_Cons)
  have off: "applyCooldown (sample_config [] 0)
     [(''0xabc'', \<lparr>notifiedAt = Fin 13600001, volume = Fin 150000\<rparr>),
      (''0x01d'', \<lparr>notifiedAt = Fin 13600000, volume = Fin 150000\<rparr>)] 100000000
     [sample_pool ''0xABC'' (Fin 4000) (Fin 2000) (Fin 150000),
      sample_pool ''0xAbc'' (Fin 4000) (Fin 2000) (Fin 200000),
      sample_pool ''0x01D'' (Fin 4000) (Fin 2000) (Fin 150000)] =
     [sample_pool ''0xAbc'' (Fin 4000) (Fin 2000) (Fin 200000)]"
    by (subst applyCooldown_decision [THEN conjunct1])
       (simp add: low addr cool Map_get_def threshold_150000 del: toLowerCase_Cons)
  have "(8246584598436249 / 68719476736 :: real) < 100003 * (12 / 10)"
    by simp
  with day off show ?thesis
    by (intro conjI)
qed

section \<open>The poll cycle\<close>

text \<open>\<open>fetchPools\<close> only requests pages and waits.\<close>

lemma fetchPools_loop_no_persist:
  "fetchPools_loop cfg resp page pools evs = (r, evs') \<Longrightarrow>
   filter is_persist_call evs' = filter is_persist_call evs \<and>
   filter is_notify_call evs' = filter is_notify_call evs"
proof (induction cfg resp page pools evs rule: fetchPools_loop.induct)
  case (1 cfg resp page pools evs)
  show ?case
  proof (cases "real page \<le> pages cfg")
    case False
    with "1.prems" show ?thesis by (simp add: fetchPools_loop.simps)
  next
    case True
    show ?thesis
    proof (cases "page_pools (resp page)")
      case (Inl e)
      with True "1.prems" show ?thesis
        by (subst (asm) fetchPools_loop.simps) auto
    next
      case (Inr ps)
      with True "1.prems" have
        "fetchPools_loop cfg resp (page + 1) (pools @ ps)
           (evs @ [HttpGetPools page] @ (if real page < pages cfg then [Delay 5000] else []))
         = (r, evs')"
        by (subst (asm) fetchPools_loop.simps) simp
      from "1.IH" [OF True Inr this] show ?thesis by simp
    qed
  qed
qed

lemma fetchPools_quiet:
  "fetchPools cfg resp = (r, evs) \<Longrightarrow>
   filter is_persist_call evs = [] \<and> filter is_notify_call evs = []"
  unfolding fetchPools_def by (drule fetchPools_loop_no_persist) simp

lemma sample_fetch:
  "fetchPools (sample_config url c) (pageResponse (sample_env ps answer)) =
     (Inr ps, [HttpGetPools 1])"
  by (simp add: fetchPools_def fetchPools_loop.simps sample_config_def sample_env_def)

text \<open>
  C4. When the cycle has fetched and filtered a batch that is not empty and the webhook
  answers with a status that is not ok, \<open>runOnce\<close> leaves the service as it was before
  the cycle, but for the events: the notify-state map, the store file and the flag are
  the ones from before, and no file operation of \<open>persistNotifiedState\<close> happens.
\<close>

theorem runOnce_notify_failure:
  assumes "\<not> running s"
    and "fetchPools cfg (pageResponse env) = (Inr pools, evs)"
    and "deduped = applyCooldown cfg (notifyState s) (cooldownNow env) (filter (matches cfg) pools)"
    and "deduped \<noteq> []"
    and "larkWebhookUrl cfg \<noteq> []"
    and "webhook env = WebhookStatus False"
  shows "runOnce cfg env s =
           s\<lparr>trace := trace s @ [LogRunStart] @ evs @
              [LogFetched (length pools), LogMatched (length (filter (matches cfg) pools)),
               LogAfterCooldown (length deduped), HttpPostCard deduped,
               ErrorRunFailed LarkNotifyFailed, LogRunEnd (endedAt env - startedAt env)]\<rparr> \<and>
         notifyState (runOnce cfg env s) = notifyState s \<and>
         storeFile (runOnce cfg env s) = storeFile s \<and>
         running (runOnce cfg env s) = running s \<and>
         filter is_persist_call (trace (runOnce cfg env s)) = filter is_persist_call (trace s)"
proof -
  have eq: "runOnce cfg env s =
           s\<lparr>trace := trace s @ [LogRunStart] @ evs @
              [LogFetched (length pools), LogMatched (length (filter (matches cfg) pools)),
               LogAfterCooldown (length deduped), HttpPostCard deduped,
               ErrorRunFailed LarkNotifyFailed, LogRunEnd (endedAt env - startedAt env)]\<rparr>"
    using assms
    by (simp add: runOnce_def runOnce_enter_def runOnce_body_def runOnce_try_def emit_def
        notifyLark_def Let_def)
  from fetchPools_quiet [OF assms(2)] have "filter is_persist_call evs = []" by simp
  with eq show ?thesis using assms(1) by simp
qed


theorem runOnce_notify_failure_witness:
  "runOnce (sample_config ''https://hook'' 86400000)
     (sample_env [sample_pool ''0xABC'' (Fin 4000) (Fin 2000) (Fin 150000)] (WebhookStatus False))
     (initial Missing) =
   (initial Missing)\<lparr>trace :=
      [LogRunStart, HttpGetPools 1, LogFetched 1, LogMatched 1, LogAfterCooldown 1,
       HttpPostCard [sample_pool ''0xABC'' (Fin 4000) (Fin 2000) (Fin 150000)],
       ErrorRunFailed LarkNotifyFailed, LogRunEnd 3000]\<rparr>"
proof -
  let ?cfg = "sample_config ''https://hook'' 86400000"
  let ?p = "sample_pool ''0xABC'' (Fin 4000) (Fin 2000) (Fin 150000)"
  let ?env = "sample_env [?p] (WebhookStatus False)"
  have m: "matches ?cfg ?p"
    by (simp add: matches_def sample_config_def sample_pool_def)
  have d: "applyCooldown ?cfg (notifyState (initial Missing)) (cooldownNow ?env)
             (filter (matches ?cfg) [?p]) = [?p]"
    using m by (simp add: applyCooldown_def cooldown_keep_def Map_get_def initial_def)
  have "\<not> running (initial Missing)" by (simp add: initial_def)
  from runOnce_notify_failure [OF this sample_fetch d [symmetric]]
  show ?thesis
    using m by (simp add: sample_config_def sample_env_def initial_def)
qed

text \<open>
  C8. When no pool is left after the threshold filter and the cooldown filter, the cycle
  ends with the notify-state map and the store file as they were at its start, and
  without a call to the webhook or a file operation of \<open>persistNotifiedState\<close>.
\<close>

theorem runOnce_empty_batch:
  assumes "\<not> running s"
    and "fetchPools cfg (pageResponse env) = (Inr pools, evs)"
    and "applyCooldown cfg (notifyState s) (cooldownNow env) (filter (matches cfg) pools) = []"
  shows "runOnce cfg env s =
           s\<lparr>trace := trace s @ [LogRunStart] @ evs @
              [LogFetched (length pools), LogMatched (length (filter (matches cfg) pools)),
               LogAfterCooldown 0, LogNoPools, LogRunEnd (endedAt env - startedAt env)]\<rparr> \<and>
         notifyState (runOnce cfg env s) = notifyState s \<and>
         storeFile (runOnce cfg env s) = storeFile s \<and>
         filter is_notify_call (trace (runOnce cfg env s)) = filter is_notify_call (trace s) \<and>
         filter is_persist_call (trace (runOnce cfg env s)) = filter is_persist_call (trace s)"
proof -
  have eq: "runOnce cfg env s =
           s\<lparr>trace := trace s @ [LogRunStart] @ evs @
              [LogFetched (length pools), LogMatched (length (filter (matches cfg) pools)),
               LogAfterCooldown 0, LogNoPools, LogRunEnd (endedAt env - startedAt env)]\<rparr>"
    using assms
    by (simp add: runOnce_def runOnce_enter_def runOnce_body_def runOnce_try_def emit_def Let_def)
  from fetchPools_quiet [OF assms(2)]
  have "filter is_persist_call evs = []" "filter is_notify_call evs = []" by simp_all
  with eq show ?thesis by simp
qed

theorem runOnce_empty_batch_witness:
  "runOnce (sample_config ''https://hook'' 86400000)
     (sample_env [sample_pool ''0xABC'' (Fin 4000) (Fin 2000) (Fin 150000),
                  sample_pool ''0xDEF'' (Fin 10) (Fin 2000) (Fin 150000)] (WebhookStatus True))
     ((initial Missing)\<lparr>notifyState := [(''0xabc'', \<lparr>notifiedAt = Fin 0, volume = Fin 150000\<rparr>)]\<rparr>) =
   (initial Missing)\<lparr>notifyState := [(''0xabc'', \<lparr>notifiedAt = Fin 0, volume = Fin 150000\<rparr>)],
      trace := [LogRunStart, HttpGetPools 1, LogFetched 2, LogMatched 1, LogAfterCooldown 0,
                LogNoPools, LogRunEnd 3000]\<rparr>"
proof -
  let ?cfg = "sample_config ''https://hook'' 86400000"
  let ?p = "sample_pool ''0xABC'' (Fin 4000) (Fin 2000) (Fin 150000)"
  let ?q = "sample_pool ''0xDEF'' (Fin 10) (Fin 2000) (Fin 150000)"
  let ?env = "sample_env [?p, ?q] (WebhookStatus True)"
  let ?s = "(initial Missing)\<lparr>notifyState := [(''0xabc'', \<lparr>notifiedAt = Fin 0, volume = Fin 150000\<rparr>)]\<rparr>"
  have m: "filter (matches ?cfg) [?p, ?q] = [?p]"
    by (simp add: matches_def sample_config_def sample_pool_def)
  have d: "applyCooldown ?cfg (notifyState ?s) (cooldownNow ?env)
             (filter (matches ?cfg) [?p, ?q]) = []"
    unfolding m
    by (simp add: applyCooldown_def cooldown_keep_def Map_get_def initial_def char_toLowerCase_def
        sample_config_def sample_pool_def sample_env_def threshold_150000 jsub_Fin
        to_double_2000)
  have "\<not> running ?s" by (simp add: initial_def)
  from runOnce_empty_batch [OF this sample_fetch d]
  show ?thesis
    using m by (simp add: sample_env_def initial_def)
qed

text \<open>
  C7. A tick that finds the flag set only logs: it requests no page, posts nothing,
  touches no file and leaves the notify-state map, the store file and the flag alone. A
  tick that finds the flag clear sets it for the time of the cycle, and a cycle in
  progress ends with the flag clear whatever the fetch client, the webhook and the file
  system answer.
\<close>

theorem runOnce_single_flight:
  "(running s \<longrightarrow>
      runOnce cfg env s = emit [LogSkipRun] s \<and>
      filter is_fetch_call (trace (runOnce cfg env s)) = filter is_fetch_call (trace s) \<and>
      filter is_notify_call (trace (runOnce cfg env s)) = filter is_notify_call (trace s) \<and>
      filter is_persist_call (trace (runOnce cfg env s)) = filter is_persist_call (trace s) \<and>
      notifyState (runOnce cfg env s) = notifyState s \<and>
      storeFile (runOnce cfg env s) = storeFile s) \<and>
   (\<not> running s \<longrightarrow>
      runOnce_enter s = Inr (emit [LogRunStart] (s\<lparr>running := True\<rparr>)) \<and>
      running (emit [LogRunStart] (s\<lparr>running := True\<rparr>)) \<and>
      runOnce cfg env s = runOnce_body cfg env (emit [LogRunStart] (s\<lparr>running := True\<rparr>))) \<and>
   \<not> running (runOnce_body cfg env s) \<and>
   (\<not> running s \<longrightarrow> \<not> running (runOnce cfg env s))"
  by (auto simp: runOnce_def runOnce_enter_def runOnce_body_def emit_def Let_def
      split: prod.splits sum.splits)

theorem runOnce_single_flight_witness:
  "runOnce (sample_config ''https://hook'' 86400000)
     (sample_env [sample_pool ''0xABC'' (Fin 4000) (Fin 2000) (Fin 150000)] (WebhookStatus True))
     ((initial Missing)\<lparr>running := True\<rparr>) =
   (initial Missing)\<lparr>running := True, trace := [LogSkipRun]\<rparr> \<and>
   \<not> running (runOnce (sample_config ''https://hook'' 86400000)
     (sample_env [sample_pool ''0xABC'' (Fin 4000) (Fin 2000) (Fin 150000)] (WebhookStatus False))
     (initial Missing))"
proof -
  let ?cfg = "sample_config ''https://hook'' 86400000"
  let ?p = "sample_pool ''0xABC'' (Fin 4000) (Fin 2000) (Fin 150000)"
  have busy: "running ((initial Missing)\<lparr>running := True\<rparr>)"
    by simp
  have idle: "\<not> running (initial Missing)"
    by (simp add: initial_def)
  from busy
    runOnce_single_flight [of "(initial Missing)\<lparr>running := True\<rparr>" ?cfg
      "sample_env [?p] (WebhookStatus True)"]
  have "runOnce ?cfg (sample_env [?p] (WebhookStatus True))
          ((initial Missing)\<lparr>running := True\<rparr>) =
        emit [LogSkipRun] ((initial Missing)\<lparr>running := True\<rparr>)"
    by blast
  moreover from idle
    runOnce_single_flight [of "initial Missing" ?cfg "sample_env [?p] (WebhookStatus False)"]
  have "\<not> running (runOnce ?cfg (sample_env [?p] (WebhookStatus False)) (initial Missing))"
    by blast
  ultimately show ?thesis
    by (simp add: initial_def emit_def)
qed

text \<open>
  With no webhook target, \<open>notifyLark\<close> returns without posting and the cycle goes on
  as after a notification: it records the batch and writes the store.
\<close>

lemma runOnce_webhook_unset:
  assumes "\<not> running s"
    and "fetchPools cfg (pageResponse env) = (Inr pools, evs)"
    and "deduped = applyCooldown cfg (notifyState s) (cooldownNow env) (filter (matches cfg) pools)"
    and "deduped \<noteq> []"
    and "larkWebhookUrl cfg = []"
    and "fsOutcome env = FsOk"
    and "m = record_notified (notifiedNow env) (notifyState s) deduped"
  shows "runOnce cfg env s =
           s\<lparr>notifyState := m, storeFile := Snapshot (snapshot_of m),
             trace := trace s @ [LogRunStart] @ evs @
              [LogFetched (length pools), LogMatched (length (filter (matches cfg) pools)),
               LogAfterCooldown (length deduped), WarnNoWebhook, LogNotified (length deduped),
               FsMkdir, FsWriteTmp (snapshot_of m), FsRename,
               LogRunEnd (endedAt env - startedAt env)]\<rparr>"
  using assms
  by (simp add: runOnce_def runOnce_enter_def runOnce_body_def runOnce_try_def emit_def
      notifyLark_def persistNotifiedState_def Let_def)

text \<open>
  C2. The default configuration has no webhook target. On a first cycle that fetches one
  pool passing the thresholds, nothing is posted to a webhook, and yet the pool gets a
  record in the notify-state map and the record is written to the store.
\<close>

theorem runOnce_missing_webhook_records:
  "runOnce (sample_config [] 86400000)
     (sample_env [sample_pool ''0xABC'' (Fin 4000) (Fin 2000) (Fin 150000)] (WebhookStatus True))
     (initial Missing) =
   \<lparr>running = False,
    notifyState = [(''0xabc'', \<lparr>notifiedAt = Fin 3000, volume = Fin 150000\<rparr>)],
    storeFile = Snapshot (JObj [(''0xabc'',
      JObj [(''notifiedAt'', JNum (Fin 3000)), (''volume'', JNum (Fin 150000))])]),
    trace = [LogRunStart, HttpGetPools 1, LogFetched 1, LogMatched 1, LogAfterCooldown 1,
       WarnNoWebhook, LogNotified 1, FsMkdir,
       FsWriteTmp (JObj [(''0xabc'',
         JObj [(''notifiedAt'', JNum (Fin 3000)), (''volume'', JNum (Fin 150000))])]),
       FsRename, LogRunEnd 3000]\<rparr>"
proof -
  let ?cfg = "sample_config [] 86400000"
  let ?p = "sample_pool ''0xABC'' (Fin 4000) (Fin 2000) (Fin 150000)"
  let ?env = "sample_env [?p] (WebhookStatus True)"
  let ?m = "[(''0xabc'', \<lparr>notifiedAt = Fin 3000, volume = Fin 150000\<rparr>)]"
  have m: "matches ?cfg ?p"
    by (simp add: matches_def sample_config_def sample_pool_def)
  have d: "applyCooldown ?cfg (notifyState (initial Missing)) (cooldownNow ?env)
             (filter (matches ?cfg) [?p]) = [?p]"
    using m by (simp add: applyCooldown_def cooldown_keep_def Map_get_def initial_def)
  have a: "\<not> is_array_index ''0xabc''"
    by (simp add: is_array_index_def is_digit_def)
  have r: "?m = record_notified (notifiedNow ?env) (notifyState (initial Missing)) [?p]"
    by (simp add: record_notified_def Map_set_def initial_def sample_env_def sample_pool_def
        char_toLowerCase_def)
  have snap: "snapshot_of ?m =
     JObj [(''0xabc'', JObj [(''notifiedAt'', JNum (Fin 3000)), (''volume'', JNum (Fin 150000))])]"
    using a by (simp add: snapshot_of_def own_property_order_def json_of_state_def json_of_number_def)
  have n: "\<not> running (initial Missing)" by (simp add: initial_def)
  have u: "larkWebhookUrl ?cfg = []" by (simp add: sample_config_def)
  have f: "fsOutcome ?env = FsOk" by (simp add: sample_env_def)
  from runOnce_webhook_unset [OF n sample_fetch d [symmetric] _ u f r]
  show ?thesis
    using m by (simp add: snap) (simp add: sample_env_def initial_def)
qed

section \<open>The state store\<close>

subsection \<open>What a load does to the map\<close>

lemma load_entry_entry_state:
  "load_entry m (k, v) =
     (case entry_state v of Some st \<Rightarrow> Map_set (toLowerCase k) st m | None \<Rightarrow> m)"
  by (cases v) (auto split: option.splits)

lemma map_of_load_entry:
  "map_of (load_entry m e) = map_of m ++ map_of (decoded [e])"
  by (cases e) (auto simp: load_entry_entry_state Map_set_def update_conv' split: option.splits)

lemma decoded_append: "decoded (xs @ ys) = decoded xs @ decoded ys"
  by (induction xs rule: decoded.induct) (auto split: option.splits)

lemma rev_decoded_single [simp]: "rev (decoded [e]) = decoded [e]"
  by (cases e) (simp split: option.splits)

lemma map_of_load_entries:
  "map_of (load_entries m es) = map_of m ++ map_of (rev (decoded es))"
proof (induction es arbitrary: m)
  case Nil
  show ?case by (simp add: load_entries_def)
next
  case (Cons e es)
  have "load_entries m (e # es) = load_entries (load_entry m e) es"
    by (simp add: load_entries_def)
  moreover have "decoded (e # es) = decoded [e] @ decoded es"
    using decoded_append [of "[e]" es] by simp
  ultimately show ?case
    by (simp add: Cons.IH map_of_load_entry)
qed

lemma distinct_load_entry: "distinct (map fst m) \<Longrightarrow> distinct (map fst (load_entry m e))"
  by (cases e) (auto simp: load_entry_entry_state Map_set_def distinct_update split: option.splits)

lemma distinct_load_entries:
  "distinct (map fst m) \<Longrightarrow> distinct (map fst (load_entries m es))"
  unfolding load_entries_def
  by (induction es arbitrary: m) (simp_all add: distinct_load_entry)

lemma keys_load_entry:
  "fst ` set (load_entry m e) = fst ` set m \<union> fst ` set (decoded [e])"
  by (cases e) (auto simp: load_entry_entry_state Map_set_def dom_update split: option.splits)

lemma keys_load_entries:
  "fst ` set (load_entries m es) = fst ` set m \<union> fst ` set (decoded es)"
proof (induction es arbitrary: m)
  case Nil
  show ?case by (simp add: load_entries_def)
next
  case (Cons e es)
  have "load_entries m (e # es) = load_entries (load_entry m e) es"
    by (simp add: load_entries_def)
  moreover have "decoded (e # es) = decoded [e] @ decoded es"
    using decoded_append [of "[e]" es] by simp
  ultimately show ?case
    by (simp add: Cons.IH keys_load_entry Un_assoc image_Un)
qed

lemma entry_state_json_of_state:
  "finite_state st \<Longrightarrow> entry_state (json_of_state st) = Some st"
  by (cases st)
     (auto simp: finite_state_def json_of_state_def json_of_number_def finite_field_def)

lemma decoded_encoded:
  "\<forall>e\<in>set m. finite_state (snd e) \<Longrightarrow>
   decoded (map (\<lambda>(k, st). (k, json_of_state st)) m) = map (\<lambda>(k, st). (toLowerCase k, st)) m"
  by (induction m) (auto simp: entry_state_json_of_state)

subsection \<open>The order of the properties of the snapshot\<close>

lemma insort_key_map:
  "insort_key f (g x) (map g ys) = map g (insort_key (\<lambda>a. f (g a)) x ys)"
  by (induction ys) simp_all

lemma sort_key_map: "sort_key f (map g xs) = map g (sort_key (\<lambda>a. f (g a)) xs)"
  by (induction xs) (simp_all add: insort_key_map)

lemma own_property_order_map:
  "own_property_order (map (\<lambda>(k, v). (k, h v)) es) =
   map (\<lambda>(k, v). (k, h v)) (own_property_order es)"
  by (simp add: own_property_order_def filter_map sort_key_map comp_def case_prod_beta)

lemma mset_own_property_order: "mset (own_property_order es) = mset es"
  by (simp add: own_property_order_def)

lemma set_own_property_order: "set (own_property_order es) = set es"
  using mset_own_property_order [of es] by (metis set_mset_mset)

lemma distinct_keys_own_property_order:
  "distinct (map fst (own_property_order es)) = distinct (map fst es)"
proof -
  have "mset (map fst (own_property_order es)) = mset (map fst es)"
    by (simp add: mset_own_property_order)
  then show ?thesis by (rule mset_eq_imp_distinct_iff)
qed


subsection \<open>Round trip\<close>

lemma map_of_rev_distinct: "distinct (map fst xs) \<Longrightarrow> map_of (rev xs) = map_of xs"
  by (subst map_of_inject_set) (simp_all add: rev_map [symmetric])

lemma map_of_unique:
  assumes "(k, v) \<in> set xs" and "\<forall>v'. (k, v') \<in> set xs \<longrightarrow> v' = v"
  shows "map_of xs k = Some v"
proof -
  from assms(1) obtain v' where "map_of xs k = Some v'"
    by (auto dest: weak_map_of_SomeI)
  moreover from this have "(k, v') \<in> set xs" by (rule map_of_SomeD)
  ultimately show ?thesis using assms(2) by simp
qed

lemma reloaded_eq:
  "reloaded s = load_entries []
     (map (\<lambda>(k, st). (k, json_of_state st)) (own_property_order (notifyState s)))"
  by (simp add: reloaded_def persistNotifiedState_def loadNotifiedState_def emit_def initial_def
      snapshot_of_def own_property_order_map Let_def)

text \<open>
  C5. Take a service whose map has one entry per key and only finite numbers in its
  records, persist it, and load the file into an empty map. The keys of the map loaded
  are the lowercased keys of the map persisted, one entry each. Every key whose
  lowercase form no other key shares comes back, lowercased, with its record. When the
  keys are lowercase already, as the keys of the service are, the map loaded is the map
  persisted.
\<close>

theorem persist_load_roundtrip:
  assumes "distinct (map fst (notifyState s))"
    and "\<forall>e\<in>set (notifyState s). finite_state (snd e)"
  shows "fst ` set (reloaded s) = toLowerCase ` fst ` set (notifyState s) \<and>
         distinct (map fst (reloaded s)) \<and>
         (\<forall>(k, st)\<in>set (notifyState s).
            (\<forall>k'\<in>fst ` set (notifyState s). toLowerCase k' = toLowerCase k \<longrightarrow> k' = k) \<longrightarrow>
            Map_get (reloaded s) (toLowerCase k) = Some st) \<and>
         ((\<forall>k\<in>fst ` set (notifyState s). toLowerCase k = k) \<longrightarrow>
            Map_get (reloaded s) = Map_get (notifyState s))"
proof -
  let ?m = "notifyState s"
  let ?m' = "own_property_order ?m"
  let ?low = "map (\<lambda>(k, st). (toLowerCase k, st)) ?m'"
  have set': "set ?m' = set ?m" by (rule set_own_property_order)
  have dist': "distinct (map fst ?m')"
    using assms(1) by (simp add: distinct_keys_own_property_order)
  have fin': "\<forall>e\<in>set ?m'. finite_state (snd e)"
    using assms(2) by (simp add: set')
  have dec: "decoded (map (\<lambda>(k, st). (k, json_of_state st)) ?m') = ?low"
    using fin' by (rule decoded_encoded)
  have mapof: "map_of (reloaded s) = map_of (rev ?low)"
    by (simp add: reloaded_eq map_of_load_entries dec)
  have keys: "fst ` set (reloaded s) = toLowerCase ` fst ` set ?m"
    by (simp add: reloaded_eq keys_load_entries dec set' image_image case_prod_beta)
  have dist: "distinct (map fst (reloaded s))"
    by (simp add: reloaded_eq distinct_load_entries)
  have uniq: "Map_get (reloaded s) (toLowerCase k) = Some st"
    if mem: "(k, st) \<in> set ?m"
      and only: "\<forall>k'\<in>fst ` set ?m. toLowerCase k' = toLowerCase k \<longrightarrow> k' = k"
    for k st
  proof -
    have "(toLowerCase k, st) \<in> set (rev ?low)"
      using mem by (force simp: set')
    moreover have "\<forall>st'. (toLowerCase k, st') \<in> set (rev ?low) \<longrightarrow> st' = st"
    proof (intro allI impI)
      fix st'
      assume "(toLowerCase k, st') \<in> set (rev ?low)"
      then obtain k' where k': "(k', st') \<in> set ?m" "toLowerCase k' = toLowerCase k"
        by (auto simp: set')
      with only have "k' = k" by force
      with k'(1) mem assms(1) show "st' = st"
        by (auto dest: eq_key_imp_eq_value)
    qed
    ultimately show ?thesis
      unfolding Map_get_def mapof by (rule map_of_unique)
  qed
  have same: "Map_get (reloaded s) = Map_get ?m"
    if low: "\<forall>k\<in>fst ` set ?m. toLowerCase k = k"
  proof -
    have "?low = ?m'"
      using low by (intro map_idI) (auto simp: set')
    then have "map_of (reloaded s) = map_of ?m'"
      using dist' by (simp add: mapof map_of_rev_distinct)
    also have "\<dots> = map_of ?m"
      using dist' assms(1) by (subst map_of_inject_set) (simp_all add: set')
    finally show ?thesis by (simp add: Map_get_def fun_eq_iff)
  qed
  from keys dist uniq same show ?thesis by blast
qed


lemma is_array_index_samples: "\<not> is_array_index ''0xabc''" "is_array_index ''7''"
  by (simp_all add: is_array_index_def is_digit_def digits_val_def)

lemma reloaded_sample:
  "reloaded sample_store =
     [(''7'', \<lparr>notifiedAt = Fin 1, volume = Fin 0\<rparr>),
      (''0xabc'', \<lparr>notifiedAt = Fin 3000, volume = Fin 150000\<rparr>)]"
  by (simp add: reloaded_eq sample_store_def own_property_order_def is_array_index_samples
      load_entries_def json_of_state_def json_of_number_def finite_field_def Map_set_def
      char_toLowerCase_def)

theorem persist_load_roundtrip_witness:
  "distinct (map fst (notifyState sample_store)) \<and>
   list_all (\<lambda>e. finite_state (snd e)) (notifyState sample_store) \<and>
   fst ` set (reloaded sample_store) = {''0xabc'', ''7''} \<and>
   Map_get (reloaded sample_store) = Map_get (notifyState sample_store)"
proof -
  have d: "distinct (map fst (notifyState sample_store))"
    by (simp add: sample_store_def)
  have f: "\<forall>e\<in>set (notifyState sample_store). finite_state (snd e)"
    by (simp add: sample_store_def finite_state_def)
  have l: "\<forall>k\<in>fst ` set (notifyState sample_store). toLowerCase k = k"
    by (simp add: sample_store_def char_toLowerCase_def)
  have k: "toLowerCase ` fst ` set (notifyState sample_store) = {''0xabc'', ''7''}"
    by (simp add: sample_store_def char_toLowerCase_def)
  note rt = persist_load_roundtrip [OF d f]
  from rt have "fst ` set (reloaded sample_store) =
      toLowerCase ` fst ` set (notifyState sample_store)"
    by (rule conjunct1)
  with k have ks: "fst ` set (reloaded sample_store) = {''0xabc'', ''7''}"
    by simp
  from rt l have "Map_get (reloaded sample_store) = Map_get (notifyState sample_store)"
    by blast
  with ks d f show ?thesis
    by (simp add: list_all_iff)
qed

subsection \<open>Legacy entries, skipped entries and a missing file\<close>

lemma keys_decoded: "fst ` set (decoded es) \<subseteq> toLowerCase ` fst ` set es"
  by (induction es rule: decoded.induct) (auto split: option.splits)

lemma entry_state_None:
  assumes "\<forall>x. v \<noteq> JNum (Fin x)"
    and "\<forall>fs n w. \<not> (v = JObj fs \<and> map_of fs ''notifiedAt'' = Some (JNum (Fin n)) \<and>
                      map_of fs ''volume'' = Some (JNum (Fin w)))"
  shows "entry_state v = None"
proof (cases v)
  case (JNum n)
  with assms(1) show ?thesis by (cases n) simp_all
next
  case (JObj fs)
  have num: "\<exists>x. map_of fs f = Some (JNum (Fin x))" if "finite_field fs f = Some n" for f n
    using that
    by (cases n) (auto simp: finite_field_def split: option.splits json.splits if_splits)
  show ?thesis
  proof (cases "finite_field fs ''notifiedAt''")
    case None
    with JObj show ?thesis by simp
  next
    case n: (Some n)
    show ?thesis
    proof (cases "finite_field fs ''volume''")
      case None
      with JObj n show ?thesis by simp
    next
      case w: (Some w)
      from num [OF n] num [OF w] assms(2) JObj show ?thesis by blast
    qed
  qed
qed simp_all

lemma load_entries_last_wins:
  assumes "entry_state v = Some st"
    and "\<forall>e\<in>set after. toLowerCase (fst e) \<noteq> toLowerCase a"
  shows "map_of (load_entries m (before @ (a, v) # after)) (toLowerCase a) = Some st"
proof -
  have "toLowerCase a \<notin> fst ` set (decoded after)"
    using assms(2) keys_decoded [of after] by force
  then have "map_of (rev (decoded after)) (toLowerCase a) = None"
    by (simp add: map_of_eq_None_iff)
  moreover have "decoded (before @ (a, v) # after) =
      decoded before @ [(toLowerCase a, st)] @ decoded after"
    using assms(1) decoded_append [of before "(a, v) # after"] by simp
  ultimately show ?thesis
    by (simp add: map_of_load_entries map_add_def)
qed

text \<open>
  C6. The loop of \<open>loadNotifiedState\<close> turns an entry whose value is a finite number
  \<open>v\<close> into the record \<open>{notifiedAt: v, volume: 0}\<close> under the lowercased key, and leaves
  the map alone on an entry whose value is neither a finite number nor an object with a
  finite \<open>notifiedAt\<close> and a finite \<open>volume\<close>. After the load of an object, a legacy
  entry that no later entry overwrites under the same lowercased key is in the map as
  that record, and the load logs the size of the map and no warning. A missing file gives
  no warning either and leaves the map as it was: empty, at start-up.
\<close>

theorem loadNotifiedState_upgrade:
  "load_entry m (a, JNum (Fin v)) =
     Map_set (toLowerCase a) \<lparr>notifiedAt = Fin v, volume = Fin 0\<rparr> m \<and>
   ((\<forall>x. j \<noteq> JNum (Fin x)) \<and>
    (\<forall>fs n w. \<not> (j = JObj fs \<and> map_of fs ''notifiedAt'' = Some (JNum (Fin n)) \<and>
                   map_of fs ''volume'' = Some (JNum (Fin w))))
      \<longrightarrow> load_entry m (a, j) = m) \<and>
   (storeFile s = Snapshot (JObj (before @ (a, JNum (Fin v)) # after)) \<and>
    (\<forall>e\<in>set after. toLowerCase (fst e) \<noteq> toLowerCase a)
      \<longrightarrow> Map_get (notifyState (loadNotifiedState s)) (toLowerCase a) =
            Some \<lparr>notifiedAt = Fin v, volume = Fin 0\<rparr>) \<and>
   (storeFile s = Snapshot (JObj es)
      \<longrightarrow> trace (loadNotifiedState s) =
            trace s @ [FsReadFile, LogLoaded (length (notifyState (loadNotifiedState s)))]) \<and>
   (storeFile s = Missing \<longrightarrow> loadNotifiedState s = emit [FsReadFile] s) \<and>
   notifyState (loadNotifiedState (initial Missing)) = []"
proof (intro conjI impI)
  show "load_entry m (a, JNum (Fin v)) =
     Map_set (toLowerCase a) \<lparr>notifiedAt = Fin v, volume = Fin 0\<rparr> m"
    by simp
next
  assume "(\<forall>x. j \<noteq> JNum (Fin x)) \<and>
    (\<forall>fs n w. \<not> (j = JObj fs \<and> map_of fs ''notifiedAt'' = Some (JNum (Fin n)) \<and>
                   map_of fs ''volume'' = Some (JNum (Fin w))))"
  then have "entry_state j = None"
    using entry_state_None [of j] by blast
  then show "load_entry m (a, j) = m"
    by (simp add: load_entry_entry_state)
next
  assume "storeFile s = Snapshot (JObj (before @ (a, JNum (Fin v)) # after)) \<and>
    (\<forall>e\<in>set after. toLowerCase (fst e) \<noteq> toLowerCase a)"
  then show "Map_get (notifyState (loadNotifiedState s)) (toLowerCase a) =
            Some \<lparr>notifiedAt = Fin v, volume = Fin 0\<rparr>"
    using load_entries_last_wins
      [of "JNum (Fin v)" "\<lparr>notifiedAt = Fin v, volume = Fin 0\<rparr>" after a "notifyState s" before]
    by (simp add: loadNotifiedState_def emit_def Map_get_def Let_def)
next
  assume "storeFile s = Snapshot (JObj es)"
  then show "trace (loadNotifiedState s) =
            trace s @ [FsReadFile, LogLoaded (length (notifyState (loadNotifiedState s)))]"
    by (simp add: loadNotifiedState_def emit_def Let_def)
next
  assume "storeFile s = Missing"
  then show "loadNotifiedState s = emit [FsReadFile] s"
    by (simp add: loadNotifiedState_def)
next
  show "notifyState (loadNotifiedState (initial Missing)) = []"
    by (simp add: loadNotifiedState_def initial_def emit_def)
qed

theorem loadNotifiedState_upgrade_witness:
  "loadNotifiedState (initial sample_legacy_file) =
     \<lparr>running = False,
      notifyState = [(''0xabc'', \<lparr>notifiedAt = Fin 1700000000000, volume = Fin 0\<rparr>)],
      storeFile = sample_legacy_file,
      trace = [FsReadFile, LogLoaded 1]\<rparr> \<and>
   Map_get (notifyState (loadNotifiedState (initial sample_legacy_file))) ''0xabc'' =
     Some \<lparr>notifiedAt = Fin 1700000000000, volume = Fin 0\<rparr> \<and>
   load_entry [] (''0xABC'', JStr ''yesterday'') = [] \<and>
   loadNotifiedState (initial Missing) = emit [FsReadFile] (initial Missing)"
proof -
  let ?s = "initial sample_legacy_file"
  let ?after = "[(''0xdef'', JStr ''yesterday''),
                 (''0x123'', JObj [(''notifiedAt'', JNum (Fin 5))]), (''0x456'', JNull)]"
  have low: "toLowerCase ''0xABC'' = ''0xabc''"
    by (simp add: char_toLowerCase_def)
  have snap: "storeFile ?s = Snapshot (JObj ([] @ (''0xABC'', JNum (Fin 1700000000000)) # ?after))"
    by (simp add: initial_def sample_legacy_file_def)
  have others: "\<forall>e\<in>set ?after. toLowerCase (fst e) \<noteq> toLowerCase ''0xABC''"
    by (simp add: char_toLowerCase_def)
  have odd: "(\<forall>x. JStr ''yesterday'' \<noteq> JNum (Fin x)) \<and>
    (\<forall>fs n w. \<not> (JStr ''yesterday'' = JObj fs \<and> map_of fs ''notifiedAt'' = Some (JNum (Fin n)) \<and>
                   map_of fs ''volume'' = Some (JNum (Fin w))))"
    by simp
  have gone: "storeFile (initial Missing) = Missing"
    by (simp add: initial_def)
  note up = loadNotifiedState_upgrade
    [of "[]" "''0xABC''" 1700000000000 "JStr ''yesterday''" ?s "[]" ?after
        "(''0xABC'', JNum (Fin 1700000000000)) # ?after"]
  from up have "Map_get (notifyState (loadNotifiedState ?s)) (toLowerCase ''0xABC'') =
      Some \<lparr>notifiedAt = Fin 1700000000000, volume = Fin 0\<rparr>"
    using snap others by blast
  then have rec: "Map_get (notifyState (loadNotifiedState ?s)) ''0xabc'' =
      Some \<lparr>notifiedAt = Fin 1700000000000, volume = Fin 0\<rparr>"
    unfolding low .
  from up odd have skip: "load_entry [] (''0xABC'', JStr ''yesterday'') = []"
    by blast
  from loadNotifiedState_upgrade [of "[]" "[]" 0 JNull "initial Missing" "[]" "[]" "[]"] gone
  have missing: "loadNotifiedState (initial Missing) = emit [FsReadFile] (initial Missing)"
    by blast
  have e1: "load_entries [] ((''0xABC'', JNum (Fin 1700000000000)) # ?after) =
      [(''0xabc'', \<lparr>notifiedAt = Fin 1700000000000, volume = Fin 0\<rparr>)]"
    by (simp add: load_entries_def finite_field_def Map_set_def char_toLowerCase_def)
  have full: "loadNotifiedState ?s =
     \<lparr>running = False,
      notifyState = [(''0xabc'', \<lparr>notifiedAt = Fin 1700000000000, volume = Fin 0\<rparr>)],
      storeFile = sample_legacy_file,
      trace = [FsReadFile, LogLoaded 1]\<rparr>"
    using e1 by (simp add: loadNotifiedState_def initial_def sample_legacy_file_def emit_def)
  show ?thesis
    by (intro conjI) (rule full rec skip missing)+
qed

section \<open>Keys of the notify-state map\<close>

subsection \<open>The map operations keep the keys normalized\<close>

lemma normalized_keys_distinct:
  "normalized_keys m \<longleftrightarrow> (\<forall>e\<in>set m. toLowerCase (fst e) = fst e) \<and> distinct (map fst m)"
proof -
  have "map (\<lambda>e. toLowerCase (fst e)) m = map fst m" if "\<forall>e\<in>set m. toLowerCase (fst e) = fst e"
    using that by (induction m) simp_all
  then show ?thesis
    unfolding normalized_keys_def by metis
qed

lemma normalized_Map_set:
  assumes "normalized_keys m"
  shows "normalized_keys (Map_set (toLowerCase a) v m)"
proof -
  have "fst ` set (Map_set (toLowerCase a) v m) = {toLowerCase a} \<union> fst ` set m"
    by (simp add: Map_set_def dom_update)
  moreover have "\<forall>k\<in>{toLowerCase a} \<union> fst ` set m. toLowerCase k = k"
    using assms by (auto simp: normalized_keys_distinct)
  ultimately have "\<forall>e\<in>set (Map_set (toLowerCase a) v m). toLowerCase (fst e) = fst e"
    by (metis imageI)
  moreover have "distinct (map fst (Map_set (toLowerCase a) v m))"
    using assms by (simp add: normalized_keys_distinct Map_set_def distinct_update)
  ultimately show ?thesis
    by (simp add: normalized_keys_distinct)
qed

lemma normalized_load_entry: "normalized_keys m \<Longrightarrow> normalized_keys (load_entry m e)"
  by (cases e) (auto simp: load_entry_entry_state normalized_Map_set split: option.splits)

lemma normalized_load_entries: "normalized_keys m \<Longrightarrow> normalized_keys (load_entries m es)"
  unfolding load_entries_def
  by (induction es arbitrary: m) (simp_all add: normalized_load_entry)

lemma normalized_record_notified:
  "normalized_keys m \<Longrightarrow> normalized_keys (record_notified now m deduped)"
  unfolding record_notified_def
  by (induction deduped arbitrary: m) (simp_all add: normalized_Map_set)

lemma keyed_lowercase_snapshot_of:
  assumes "normalized_keys m"
  shows "keyed_lowercase (snapshot_of m)"
proof -
  let ?es = "map (\<lambda>(k, st). (k, json_of_state st)) m"
  have keys: "map fst ?es = map fst m"
    by (induction m) auto
  have "distinct (map fst ?es)"
    unfolding keys using assms by (simp add: normalized_keys_distinct)
  moreover have "\<forall>e\<in>set ?es. toLowerCase (fst e) = fst e"
    using assms by (auto simp: normalized_keys_distinct)
  ultimately show ?thesis
    by (simp add: snapshot_of_def set_own_property_order distinct_keys_own_property_order)
qed

subsection \<open>The calls keep the invariant\<close>

lemma written_snapshots_append [simp]:
  "written_snapshots (xs @ ys) = written_snapshots xs @ written_snapshots ys"
  by (induction xs rule: written_snapshots.induct) simp_all

lemma written_snapshots_persist_calls:
  "written_snapshots (filter is_persist_call evs) = written_snapshots evs"
  by (induction evs rule: written_snapshots.induct) simp_all

lemma fetchPools_writes_nothing:
  "fetchPools cfg resp = (r, evs) \<Longrightarrow> written_snapshots evs = []"
  using fetchPools_quiet [of cfg resp r evs] written_snapshots_persist_calls [of evs]
  by simp

lemma notifyLark_writes_nothing:
  "notifyLark cfg answer pools = (r, evs) \<Longrightarrow> written_snapshots evs = []"
  by (auto simp: notifyLark_def split: if_splits webhook_response.splits)

lemma invariant_emit:
  "written_snapshots evs = [] \<Longrightarrow> store_invariant f s \<Longrightarrow> store_invariant f (emit evs s)"
  by (simp add: store_invariant_def emit_def)

lemma invariant_running [simp]:
  "store_invariant f (s\<lparr>running := b\<rparr>) = store_invariant f s"
  by (simp add: store_invariant_def)

lemma invariant_persist:
  "store_invariant f s \<Longrightarrow> store_invariant f (snd (persistNotifiedState outcome s))"
  by (cases outcome)
     (auto simp: persistNotifiedState_def store_invariant_def emit_def Let_def
           keyed_lowercase_snapshot_of)

lemma invariant_record:
  "store_invariant f s \<Longrightarrow>
   store_invariant f (s\<lparr>notifyState := record_notified now (notifyState s) deduped\<rparr>)"
  by (simp add: store_invariant_def normalized_record_notified)

lemma invariant_load: "store_invariant f s \<Longrightarrow> store_invariant f (loadNotifiedState s)"
  by (auto simp: loadNotifiedState_def store_invariant_def emit_def Let_def
        normalized_load_entries split: store_file.splits sum.splits)

lemma invariant_try:
  assumes "store_invariant f s"
  shows "store_invariant f (snd (runOnce_try cfg env s))"
proof (cases "fetchPools cfg (pageResponse env)")
  case (Pair r evs)
  note quiet = fetchPools_writes_nothing [OF Pair]
  show ?thesis
  proof (cases r)
    case (Inl e)
    with Pair quiet assms show ?thesis
      by (simp add: runOnce_try_def invariant_emit)
  next
    case (Inr pools)
    let ?s3 = "emit [LogAfterCooldown (length (applyCooldown cfg (notifyState s)
                  (cooldownNow env) (filter (matches cfg) pools)))]
                (emit [LogMatched (length (filter (matches cfg) pools))]
                  (emit (evs @ [LogFetched (length pools)]) s))"
    let ?deduped = "applyCooldown cfg (notifyState s) (cooldownNow env) (filter (matches cfg) pools)"
    have s3: "store_invariant f ?s3"
      using assms quiet by (intro invariant_emit) simp_all
    show ?thesis
    proof (cases "?deduped = []")
      case True
      with Pair Inr s3 show ?thesis
        by (simp add: runOnce_try_def Let_def emit_def invariant_emit store_invariant_def)
    next
      case False
      obtain r' evs' where nl: "notifyLark cfg (webhook env) ?deduped = (r', evs')"
        by (cases "notifyLark cfg (webhook env) ?deduped")
      note w = notifyLark_writes_nothing [OF nl]
      show ?thesis
      proof (cases r')
        case (Inl e)
        have "store_invariant f (emit evs' ?s3)"
          using w s3 by (rule invariant_emit)
        with Pair Inr False nl Inl show ?thesis
          by (simp add: runOnce_try_def Let_def emit_def)
      next
        case (Inr u)
        let ?s4 = "emit (evs' @ [LogNotified (length ?deduped)]) ?s3"
        have "store_invariant f ?s4"
          by (rule invariant_emit) (simp_all add: w s3)
        then have "store_invariant f (snd (persistNotifiedState (fsOutcome env)
            (?s4\<lparr>notifyState := record_notified (notifiedNow env) (notifyState ?s4) ?deduped\<rparr>)))"
          by (intro invariant_persist invariant_record)
        with Pair \<open>r = Inr pools\<close> False nl Inr show ?thesis
          by (simp add: runOnce_try_def Let_def emit_def)
      qed
    qed
  qed
qed

lemma invariant_body: "store_invariant f s \<Longrightarrow> store_invariant f (runOnce_body cfg env s)"
  using invariant_try [of f s cfg env]
  by (auto simp: runOnce_body_def Let_def invariant_emit split: prod.splits sum.splits)

lemma invariant_step: "store_invariant f s \<Longrightarrow> store_invariant f (step cfg s c)"
  by (cases c) (auto simp: invariant_load invariant_body runOnce_enter_def invariant_emit)

lemma invariant_run_calls:
  "store_invariant f s \<Longrightarrow> store_invariant f (run_calls cfg s calls)"
  unfolding run_calls_def
  by (induction calls arbitrary: s) (simp_all add: invariant_step)

lemma invariant_initial: "store_invariant f (initial f)"
  by (simp add: store_invariant_def initial_def normalized_keys_def)

text \<open>
  C9. From the service as constructed, beside any store file, after any sequence of
  loads, ticks and cycles with any answers from outside: every key of the notify-state
  map is its own lowercase form, no two records have the same lowercase key, every
  snapshot written is an object with lowercase keys, and the store file is the one
  found at the start or such a snapshot.
\<close>

theorem notifyState_keys_normalized:
  "(\<forall>e\<in>set (notifyState (run_calls cfg (initial f) calls)). toLowerCase (fst e) = fst e) \<and>
   distinct (map (\<lambda>e. toLowerCase (fst e)) (notifyState (run_calls cfg (initial f) calls))) \<and>
   (\<forall>p\<in>set (written_snapshots (trace (run_calls cfg (initial f) calls))). keyed_lowercase p) \<and>
   (storeFile (run_calls cfg (initial f) calls) = f \<or>
    (\<exists>p. storeFile (run_calls cfg (initial f) calls) = Snapshot p \<and> keyed_lowercase p))"
  using invariant_run_calls [OF invariant_initial, of f cfg calls]
  by (simp add: store_invariant_def normalized_keys_def)


text \<open>A start-up on the legacy file, followed by a first cycle that notifies one new pool.\<close>

lemma runOnce_notified:
  assumes "\<not> running s"
    and "fetchPools cfg (pageResponse env) = (Inr pools, evs)"
    and "deduped = applyCooldown cfg (notifyState s) (cooldownNow env) (filter (matches cfg) pools)"
    and "deduped \<noteq> []"
    and "larkWebhookUrl cfg \<noteq> []"
    and "webhook env = WebhookStatus True"
    and "fsOutcome env = FsOk"
    and "m = record_notified (notifiedNow env) (notifyState s) deduped"
  shows "runOnce cfg env s =
           s\<lparr>notifyState := m, storeFile := Snapshot (snapshot_of m),
             trace := trace s @ [LogRunStart] @ evs @
              [LogFetched (length pools), LogMatched (length (filter (matches cfg) pools)),
               LogAfterCooldown (length deduped), HttpPostCard deduped,
               LogNotified (length deduped),
               FsMkdir, FsWriteTmp (snapshot_of m), FsRename,
               LogRunEnd (endedAt env - startedAt env)]\<rparr>"
  using assms
  by (simp add: runOnce_def runOnce_enter_def runOnce_body_def runOnce_try_def emit_def
      notifyLark_def persistNotifiedState_def Let_def)

lemma load_sample_legacy:
  "loadNotifiedState (initial sample_legacy_file) =
     \<lparr>running = False,
      notifyState = [(''0xabc'', \<lparr>notifiedAt = Fin 1700000000000, volume = Fin 0\<rparr>)],
      storeFile = sample_legacy_file,
      trace = [FsReadFile, LogLoaded 1]\<rparr>"
  by (simp add: loadNotifiedState_def initial_def sample_legacy_file_def emit_def
      load_entries_def finite_field_def Map_set_def char_toLowerCase_def)

lemma run_calls_start_up:
  "\<not> running s \<Longrightarrow> run_calls cfg s [Load, Tick, Settle env] = onModuleInit cfg env s"
  by (auto simp: run_calls_def onModuleInit_def runOnce_def runOnce_enter_def
      loadNotifiedState_def emit_def Let_def split: store_file.splits sum.splits)

lemma start_up_sample:
  "onModuleInit (sample_config ''https://hook'' 86400000)
     (sample_env [sample_pool ''0xDEF'' (Fin 4000) (Fin 2000) (Fin 150000)] (WebhookStatus True))
     (initial sample_legacy_file) =
   \<lparr>running = False,
    notifyState = [(''0xabc'', \<lparr>notifiedAt = Fin 1700000000000, volume = Fin 0\<rparr>),
                   (''0xdef'', \<lparr>notifiedAt = Fin 3000, volume = Fin 150000\<rparr>)],
    storeFile = Snapshot (JObj
      [(''0xabc'', JObj [(''notifiedAt'', JNum (Fin 1700000000000)), (''volume'', JNum (Fin 0))]),
       (''0xdef'', JObj [(''notifiedAt'', JNum (Fin 3000)), (''volume'', JNum (Fin 150000))])]),
    trace = [FsReadFile, LogLoaded 1, LogRunStart, HttpGetPools 1, LogFetched 1, LogMatched 1,
      LogAfterCooldown 1,
      HttpPostCard [sample_pool ''0xDEF'' (Fin 4000) (Fin 2000) (Fin 150000)],
      LogNotified 1, FsMkdir,
      FsWriteTmp (JObj
        [(''0xabc'', JObj [(''notifiedAt'', JNum (Fin 1700000000000)), (''volume'', JNum (Fin 0))]),
         (''0xdef'', JObj [(''notifiedAt'', JNum (Fin 3000)), (''volume'', JNum (Fin 150000))])]),
      FsRename, LogRunEnd 3000]\<rparr>"
proof -
  let ?cfg = "sample_config ''https://hook'' 86400000"
  let ?p = "sample_pool ''0xDEF'' (Fin 4000) (Fin 2000) (Fin 150000)"
  let ?env = "sample_env [?p] (WebhookStatus True)"
  let ?s = "loadNotifiedState (initial sample_legacy_file)"
  let ?m = "[(''0xabc'', \<lparr>notifiedAt = Fin 1700000000000, volume = Fin 0\<rparr>),
             (''0xdef'', \<lparr>notifiedAt = Fin 3000, volume = Fin 150000\<rparr>)]"
  have m: "matches ?cfg ?p"
    by (simp add: matches_def sample_config_def sample_pool_def)
  have d: "applyCooldown ?cfg (notifyState ?s) (cooldownNow ?env) (filter (matches ?cfg) [?p]) = [?p]"
    using m
    by (simp add: load_sample_legacy applyCooldown_def cooldown_keep_def Map_get_def
        sample_pool_def char_toLowerCase_def)
  have a: "\<not> is_array_index ''0xabc''" "\<not> is_array_index ''0xdef''"
    by (simp_all add: is_array_index_def is_digit_def)
  have r: "?m = record_notified (notifiedNow ?env) (notifyState ?s) [?p]"
    by (simp add: load_sample_legacy record_notified_def Map_set_def sample_env_def
        sample_pool_def char_toLowerCase_def)
  have snap: "snapshot_of ?m = JObj
      [(''0xabc'', JObj [(''notifiedAt'', JNum (Fin 1700000000000)), (''volume'', JNum (Fin 0))]),
       (''0xdef'', JObj [(''notifiedAt'', JNum (Fin 3000)), (''volume'', JNum (Fin 150000))])]"
    using a by (simp add: snapshot_of_def own_property_order_def json_of_state_def json_of_number_def)
  have n: "\<not> running ?s" by (simp add: load_sample_legacy)
  have u: "larkWebhookUrl ?cfg \<noteq> []" by (simp add: sample_config_def)
  have w: "webhook ?env = WebhookStatus True" by (simp add: sample_env_def)
  have f: "fsOutcome ?env = FsOk" by (simp add: sample_env_def)
  from runOnce_notified [OF n sample_fetch d [symmetric] _ u w f r]
  show ?thesis
    unfolding onModuleInit_def
    using m by (simp add: snap) (simp add: load_sample_legacy sample_env_def)
qed

theorem notifyState_keys_normalized_witness:
  "map fst (notifyState (run_calls (sample_config ''https://hook'' 86400000)
      (initial sample_legacy_file)
      [Load, Tick, Settle (sample_env [sample_pool ''0xDEF'' (Fin 4000) (Fin 2000) (Fin 150000)]
         (WebhookStatus True))])) = [''0xabc'', ''0xdef''] \<and>
   list_all (\<lambda>e. toLowerCase (fst e) = fst e)
     (notifyState (run_calls (sample_config ''https://hook'' 86400000)
      (initial sample_legacy_file)
      [Load, Tick, Settle (sample_env [sample_pool ''0xDEF'' (Fin 4000) (Fin 2000) (Fin 150000)]
         (WebhookStatus True))])) \<and>
   list_all keyed_lowercase
     (written_snapshots (trace (run_calls (sample_config ''https://hook'' 86400000)
      (initial sample_legacy_file)
      [Load, Tick, Settle (sample_env [sample_pool ''0xDEF'' (Fin 4000) (Fin 2000) (Fin 150000)]
         (WebhookStatus True))])))"
proof -
  let ?cfg = "sample_config ''https://hook'' 86400000"
  let ?env = "sample_env [sample_pool ''0xDEF'' (Fin 4000) (Fin 2000) (Fin 150000)]
         (WebhookStatus True)"
  let ?s = "run_calls ?cfg (initial sample_legacy_file) [Load, Tick, Settle ?env]"
  have "\<not> running (initial sample_legacy_file)"
    by (simp add: initial_def)
  then have "?s = onModuleInit ?cfg ?env (initial sample_legacy_file)"
    by (rule run_calls_start_up)
  then have keys: "map fst (notifyState ?s) = [''0xabc'', ''0xdef'']"
    by (simp add: start_up_sample)
  note inv = notifyState_keys_normalized [of ?cfg sample_legacy_file "[Load, Tick, Settle ?env]"]
  from inv have "\<forall>e\<in>set (notifyState ?s). toLowerCase (fst e) = fst e"
    by (rule conjunct1)
  then have low: "list_all (\<lambda>e. toLowerCase (fst e) = fst e) (notifyState ?s)"
    by (simp only: list_all_iff)
  from inv have "\<forall>p\<in>set (written_snapshots (trace ?s)). keyed_lowercase p"
    by (rule conjunct2 [THEN conjunct2, THEN conjunct1])
  then have snaps: "list_all keyed_lowercase (written_snapshots (trace ?s))"
    by (simp only: list_all_iff)
  show ?thesis
    by (intro conjI) (rule keys low snaps)+
qed

section \<open>Records with a volume of zero or less\<close>

text \<open>
  C10. When the record of a pool has a volume of zero or less, the threshold
  \<open>max(priorVolume, 0) * (1 + 0.2)\<close> is 0, so the pool is kept by the cooldown engine
  whenever its current volume is at least 0, whatever the cooldown and the time passed,
  and is in the batch of every cycle in which it is fetched and passes the threshold
  filter. A pool that passes a filter with a minimum volume of at least 0 has such a
  volume. The record that the load makes of a legacy entry has volume 0.
\<close>

theorem nonpositive_prior_volume_override:
  assumes "Map_get st (toLowerCase (Pool.address pool)) = Some prior"
    and "jle (NotifyState.volume prior) (Fin 0)"
  shows "jmul (Math_max (NotifyState.volume prior) (Fin 0))
              (jadd (Fin 1) volumeGrowthRatioForRenotify) = Fin 0 \<and>
         (jge (Pool.volume pool) (Fin 0) \<longrightarrow> cooldown_keep cfg st now pool) \<and>
         (jge (Pool.volume pool) (Fin 0) \<and> pool \<in> set pools \<and> matches cfg pool
            \<longrightarrow> pool \<in> set (applyCooldown cfg st now (filter (matches cfg) pools))) \<and>
         (0 \<le> minVolume cfg \<and> matches cfg pool \<longrightarrow> jge (Pool.volume pool) (Fin 0)) \<and>
         Map_get (load_entry m (a, JNum (Fin v))) (toLowerCase a) =
           Some \<lparr>notifiedAt = Fin v, volume = Fin 0\<rparr>"
proof -
  have base: "Math_max (NotifyState.volume prior) (Fin 0) = Fin 0"
    using assms(2) by (cases "NotifyState.volume prior") (simp_all add: jle_def)
  then have thr: "jmul (Math_max (NotifyState.volume prior) (Fin 0))
              (jadd (Fin 1) volumeGrowthRatioForRenotify) = Fin 0"
    by (simp add: threshold_0)
  have keep: "cooldown_keep cfg st now pool" if "jge (Pool.volume pool) (Fin 0)"
    using that assms(1) thr by (simp add: cooldown_keep_def Let_def)
  have nonneg: "jge (Pool.volume pool) (Fin 0)" if "0 \<le> minVolume cfg" "matches cfg pool"
    using that by (cases "Pool.volume pool") (auto simp: matches_def)
  have legacy: "Map_get (load_entry m (a, JNum (Fin v))) (toLowerCase a) =
           Some \<lparr>notifiedAt = Fin v, volume = Fin 0\<rparr>"
    by (simp add: Map_get_def Map_set_def update_conv')
  from thr keep nonneg legacy show ?thesis
    by (simp add: applyCooldown_def)
qed

theorem nonpositive_prior_volume_override_witness:
  "applyCooldown (sample_config ''https://hook'' 86400000)
     (notifyState (loadNotifiedState (initial sample_legacy_file))) 1700000000001
     (filter (matches (sample_config ''https://hook'' 86400000))
        [sample_pool ''0xABC'' (Fin 4000) (Fin 2000) (Fin 150000)]) =
   [sample_pool ''0xABC'' (Fin 4000) (Fin 2000) (Fin 150000)] \<and>
   sample_pool ''0xABC'' (Fin 4000) (Fin 2000) (Fin 150000) \<in>
     set (applyCooldown (sample_config ''https://hook'' 0)
       (notifyState (loadNotifiedState (initial sample_legacy_file))) 1700000000001
       (filter (matches (sample_config ''https://hook'' 0))
          [sample_pool ''0xABC'' (Fin 4000) (Fin 2000) (Fin 150000)]))"
proof -
  let ?p = "sample_pool ''0xABC'' (Fin 4000) (Fin 2000) (Fin 150000)"
  let ?st = "notifyState (loadNotifiedState (initial sample_legacy_file))"
  let ?prior = "\<lparr>notifiedAt = Fin 1700000000000, volume = Fin 0\<rparr>"
  have prior: "Map_get ?st (toLowerCase (Pool.address ?p)) = Some ?prior"
    by (simp add: load_sample_legacy Map_get_def sample_pool_def char_toLowerCase_def)
  have low: "jle (NotifyState.volume ?prior) (Fin 0)"
    by (simp add: jle_def)
  have vol: "jge (Pool.volume ?p) (Fin 0)"
    by (simp add: sample_pool_def)
  have m: "matches (sample_config ''https://hook'' c) ?p" for c
    by (simp add: matches_def sample_config_def sample_pool_def)
  have mem: "?p \<in> set [?p]" by simp
  from nonpositive_prior_volume_override
    [where cfg = "sample_config ''https://hook'' 86400000" and now = 1700000000001 and
      pools = "[?p]", OF prior low]
    vol mem m
  have "?p \<in> set (applyCooldown (sample_config ''https://hook'' 86400000) ?st 1700000000001
      (filter (matches (sample_config ''https://hook'' 86400000)) [?p]))"
    by blast
  then have one: "applyCooldown (sample_config ''https://hook'' 86400000) ?st 1700000000001
      (filter (matches (sample_config ''https://hook'' 86400000)) [?p]) = [?p]"
    using m by (simp add: applyCooldown_def split: if_splits)
  from nonpositive_prior_volume_override
    [where cfg = "sample_config ''https://hook'' 0" and now = 1700000000001 and
      pools = "[?p]", OF prior low]
    vol mem m
  have "?p \<in> set (applyCooldown (sample_config ''https://hook'' 0) ?st 1700000000001
      (filter (matches (sample_config ''https://hook'' 0)) [?p]))"
    by blast
  with one show ?thesis
    by (intro conjI)
qed

end
